theory Spec2Isabelle
  imports Complex_Main "HOL-Library.Char_ord" "HOL-Library.List_Lexorder"
    "HOL-Library.Product_Lexorder"
begin

section \<open>Python values and their comparisons\<close>

text \<open>
  The engine is dynamically typed: a fact attribute or a rule operand may hold any value.
  The model covers \<open>None\<close>, integers, finite floats (each denotes a rational number, and
  Python compares an integer with a float by their exact values), strings and tuples.
  Booleans, NaN and infinities, lists and dictionaries are not part of the value universe.
  Strings are ordered lexicographically by character code, as Python orders \<open>str\<close>.
\<close>

datatype py_error = TypeError | AttributeError | KeyError | IndexError | ValueError

datatype pyval = PNone | PInt int | PFloat rat | PStr string | PTuple "pyval list"

fun py_num :: "pyval \<Rightarrow> rat option" where
  "py_num (PInt i) = Some (of_int i)"
| "py_num (PFloat x) = Some x"
| "py_num PNone = None"
| "py_num (PStr s) = None"
| "py_num (PTuple xs) = None"

text \<open>\<open>a == b\<close>: never raises on these types; values of unrelated types are unequal.\<close>

fun py_eq :: "pyval \<Rightarrow> pyval \<Rightarrow> bool"
  and py_eq_list :: "pyval list \<Rightarrow> pyval list \<Rightarrow> bool" where
  "py_eq PNone v = (case v of PNone \<Rightarrow> True | _ \<Rightarrow> False)"
| "py_eq (PInt i) v = (case py_num v of Some r \<Rightarrow> of_int i = r | None \<Rightarrow> False)"
| "py_eq (PFloat x) v = (case py_num v of Some r \<Rightarrow> x = r | None \<Rightarrow> False)"
| "py_eq (PStr s) v = (case v of PStr t \<Rightarrow> s = t | _ \<Rightarrow> False)"
| "py_eq (PTuple xs) v = (case v of PTuple ys \<Rightarrow> py_eq_list xs ys | _ \<Rightarrow> False)"
| "py_eq_list [] ys = (case ys of [] \<Rightarrow> True | _ # _ \<Rightarrow> False)"
| "py_eq_list (x # xs) ys =
     (case ys of [] \<Rightarrow> False | y # ys' \<Rightarrow> py_eq x y \<and> py_eq_list xs ys')"

datatype ordop = OpGt | OpGe | OpLt | OpLe

fun ord_apply :: "ordop \<Rightarrow> ('a::linorder) \<Rightarrow> 'a \<Rightarrow> bool" where
  "ord_apply OpGt x y = (x > y)"
| "ord_apply OpGe x y = (x \<ge> y)"
| "ord_apply OpLt x y = (x < y)"
| "ord_apply OpLe x y = (x \<le> y)"

text \<open>
  \<open>a > b\<close>, \<open>a >= b\<close>, \<open>a < b\<close>, \<open>a <= b\<close>: numbers compare with numbers, strings with
  strings, tuples with tuples (at the first position where the items are unequal, else by
  length); every other pairing raises \<open>TypeError\<close>.
\<close>

fun py_ord :: "ordop \<Rightarrow> pyval \<Rightarrow> pyval \<Rightarrow> py_error + bool"
  and py_ord_list :: "ordop \<Rightarrow> pyval list \<Rightarrow> pyval list \<Rightarrow> py_error + bool" where
  "py_ord c PNone v = Inl TypeError"
| "py_ord c (PInt i) v =
     (case py_num v of Some r \<Rightarrow> Inr (ord_apply c (of_int i) r) | None \<Rightarrow> Inl TypeError)"
| "py_ord c (PFloat x) v =
     (case py_num v of Some r \<Rightarrow> Inr (ord_apply c x r) | None \<Rightarrow> Inl TypeError)"
| "py_ord c (PStr s) v = (case v of PStr t \<Rightarrow> Inr (ord_apply c s t) | _ \<Rightarrow> Inl TypeError)"
| "py_ord c (PTuple xs) v =
     (case v of PTuple ys \<Rightarrow> py_ord_list c xs ys | _ \<Rightarrow> Inl TypeError)"
| "py_ord_list c [] ys = Inr (ord_apply c (0::nat) (length ys))"
| "py_ord_list c (x # xs) ys =
     (case ys of
        [] \<Rightarrow> Inr (ord_apply c (Suc (length xs)) 0)
      | y # ys' \<Rightarrow> if py_eq x y then py_ord_list c xs ys' else py_ord c x y)"

text \<open>\<open>v[i]\<close> for a literal index \<open>i\<close> that is not negative.\<close>

fun py_index :: "pyval \<Rightarrow> nat \<Rightarrow> py_error + pyval" where
  "py_index (PTuple xs) i = (if i < length xs then Inr (xs ! i) else Inl IndexError)"
| "py_index (PStr s) i = (if i < length s then Inr (PStr [s ! i]) else Inl IndexError)"
| "py_index PNone i = Inl TypeError"
| "py_index (PInt n) i = Inl TypeError"
| "py_index (PFloat x) i = Inl TypeError"

section \<open>Trace logger (utils/trace\_logger.py)\<close>

text \<open>
  A trace entry keeps its level tag and its optional rule identifier. The timestamp and
  the message text come from the clock and from string formatting; the engine never reads
  them back, and they are left out, as are the fields \<open>start_time\<close> and \<open>end_time\<close> of
  the logger.
\<close>

record trace_entry =
  level :: string
  entry_rule_id :: "string option"

record trace_logger =
  max_depth :: int
  trace :: "trace_entry list"

definition new_trace_logger :: "int \<Rightarrow> trace_logger" where
  "new_trace_logger n = \<lparr>max_depth = n, trace = []\<rparr>"

definition log_entry :: "trace_logger \<Rightarrow> string \<Rightarrow> string option \<Rightarrow> trace_logger" where
  "log_entry lg lvl rid =
     (if int (length (trace lg)) < max_depth lg
      then lg\<lparr>trace := trace lg @ [\<lparr>level = lvl, entry_rule_id = rid\<rparr>]\<rparr>
      else lg)"

definition start :: "trace_logger \<Rightarrow> trace_logger" where
  "start lg = log_entry (lg\<lparr>trace := []\<rparr>) ''SYSTEM'' None"

definition log_rule_evaluation :: "trace_logger \<Rightarrow> string \<Rightarrow> trace_logger" where
  "log_rule_evaluation lg rid = log_entry lg ''RULE_EVAL'' (Some rid)"

definition log_rule_fired :: "trace_logger \<Rightarrow> string \<Rightarrow> trace_logger" where
  "log_rule_fired lg rid = log_entry lg ''RULE_FIRE'' (Some rid)"

definition log_conflict :: "trace_logger \<Rightarrow> trace_logger" where
  "log_conflict lg = log_entry lg ''CONFLICT'' None"

definition log_decision :: "trace_logger \<Rightarrow> trace_logger" where
  "log_decision lg = log_entry lg ''DECISION'' None"

record summary =
  total_entries :: nat
  rules_fired :: nat
  conflicts_resolved :: nat
  summary_trace :: "trace_entry list"

definition get_summary :: "trace_logger \<Rightarrow> summary" where
  "get_summary lg =
     \<lparr>total_entries = length (trace lg),
      rules_fired = length (filter (\<lambda>e. level e = ''RULE_FIRE'') (trace lg)),
      conflicts_resolved = length (filter (\<lambda>e. level e = ''CONFLICT'') (trace lg)),
      summary_trace = trace lg\<rparr>"

text \<open>A run of log calls, in order, each with its level and rule identifier.\<close>

fun log_all :: "trace_logger \<Rightarrow> (string \<times> string option) list \<Rightarrow> trace_logger" where
  "log_all lg [] = lg"
| "log_all lg ((lvl, rid) # evs) = log_all (log_entry lg lvl rid) evs"

section \<open>Applicant (models/applicant.py)\<close>

text \<open>
  The fact record. \<open>decision_writes\<close> is a history variable, not a field of the class: it
  lists, oldest first, every value that an execution of \<open>self.decision = decision\<close> in
  \<open>set_decision\<close> has stored.
\<close>

record applicant =
  applicant_id :: string
  income :: pyval
  credit_score :: pyval
  employment_status :: pyval
  employment_duration :: pyval
  age :: pyval
  dependents :: pyval
  existing_debt :: pyval
  decision :: "string option"
  reasoning_trace :: "trace_entry list"
  decision_writes :: "string list"

definition new_applicant ::
  "string \<Rightarrow> pyval \<Rightarrow> pyval \<Rightarrow> pyval \<Rightarrow> pyval \<Rightarrow> pyval \<Rightarrow> pyval \<Rightarrow> pyval \<Rightarrow> applicant" where
  "new_applicant aid inc cs es ed ag dep debt =
     \<lparr>applicant_id = aid, income = inc, credit_score = cs, employment_status = es,
      employment_duration = ed, age = ag, dependents = dep, existing_debt = debt,
      decision = None, reasoning_trace = [], decision_writes = []\<rparr>"

text \<open>\<open>set_decision(decision, trace=None)\<close>; the trace is stored when it is a non-empty list.\<close>

definition set_decision :: "applicant \<Rightarrow> string \<Rightarrow> trace_entry list option \<Rightarrow> applicant" where
  "set_decision a d tr =
     (let a1 = a\<lparr>decision := Some d, decision_writes := decision_writes a @ [d]\<rparr>
      in case tr of
           None \<Rightarrow> a1
         | Some t \<Rightarrow> (if t \<noteq> [] then a1\<lparr>reasoning_trace := t\<rparr> else a1))"

text \<open>
  \<open>getattr(applicant, attr, None)\<close> on the scalar attributes of the instance; an absent
  attribute reads as \<open>None\<close>. The attribute \<open>reasoning_trace\<close> (a list), the methods and
  the special attributes of the class hold values outside the value universe; no rule of
  the rule base names them, and they read as \<open>None\<close> here.
\<close>

definition getattr :: "applicant \<Rightarrow> string \<Rightarrow> pyval" where
  "getattr a attr =
     (if attr = ''applicant_id'' then PStr (applicant_id a)
      else if attr = ''income'' then income a
      else if attr = ''credit_score'' then credit_score a
      else if attr = ''employment_status'' then employment_status a
      else if attr = ''employment_duration'' then employment_duration a
      else if attr = ''age'' then age a
      else if attr = ''dependents'' then dependents a
      else if attr = ''existing_debt'' then existing_debt a
      else if attr = ''decision'' then (case decision a of None \<Rightarrow> PNone | Some d \<Rightarrow> PStr d)
      else PNone)"

section \<open>Rule (models/rule.py)\<close>

text \<open>
  An antecedent is a triple (attribute, operator, value) or a callable on the applicant;
  a callable returns a truth value or raises.
\<close>

datatype condition = Cond string string pyval | Callable "applicant \<Rightarrow> py_error + bool"

record rule =
  rule_id :: string
  antecedents :: "condition list"
  consequent :: string
  priority :: string
  specificity :: int
  description :: string
  fired_count :: nat

definition new_rule ::
  "string \<Rightarrow> condition list \<Rightarrow> string \<Rightarrow> string \<Rightarrow> int \<Rightarrow> string \<Rightarrow> rule" where
  "new_rule rid ants cons prio spec descr =
     \<lparr>rule_id = rid, antecedents = ants, consequent = cons, priority = prio,
      specificity = spec, description = descr, fired_count = 0\<rparr>"

text \<open>
  \<open>_evaluate_condition\<close>. The chained comparison \<open>value[0] <= applicant_value <= value[1]\<close>
  reads \<open>value[1]\<close> only when the first comparison holds.
\<close>

definition evaluate_condition ::
  "applicant \<Rightarrow> string \<Rightarrow> string \<Rightarrow> pyval \<Rightarrow> py_error + bool" where
  "evaluate_condition a attr operator val =
     (let applicant_value = getattr a attr in
      if applicant_value = PNone then Inr False
      else if operator = ''>'' then py_ord OpGt applicant_value val
      else if operator = ''>='' then py_ord OpGe applicant_value val
      else if operator = ''<'' then py_ord OpLt applicant_value val
      else if operator = ''<='' then py_ord OpLe applicant_value val
      else if operator = ''=='' then Inr (py_eq applicant_value val)
      else if operator = ''!='' then Inr (\<not> py_eq applicant_value val)
      else if operator = ''in_range'' then
        (case py_index val 0 of
           Inl e \<Rightarrow> Inl e
         | Inr lo \<Rightarrow>
             (case py_ord OpLe lo applicant_value of
                Inl e \<Rightarrow> Inl e
              | Inr b \<Rightarrow>
                  if \<not> b then Inr False
                  else (case py_index val 1 of
                          Inl e \<Rightarrow> Inl e
                        | Inr hi \<Rightarrow> py_ord OpLe applicant_value hi)))
      else Inr False)"

text \<open>One antecedent, as the body of the loop in \<open>evaluate\<close> tests it.\<close>

fun check_condition :: "applicant \<Rightarrow> condition \<Rightarrow> py_error + bool" where
  "check_condition a (Callable f) = f a"
| "check_condition a (Cond attr operator val) = evaluate_condition a attr operator val"

text \<open>The loop of \<open>evaluate\<close>: the first false antecedent returns, an exception leaves it.\<close>

fun evaluate_loop :: "applicant \<Rightarrow> condition list \<Rightarrow> py_error + bool" where
  "evaluate_loop a [] = Inr True"
| "evaluate_loop a (c # cs) =
     (case check_condition a c of
        Inl e \<Rightarrow> Inl e
      | Inr b \<Rightarrow> if \<not> b then Inr False else evaluate_loop a cs)"

text \<open>\<open>evaluate\<close>: the \<open>except Exception\<close> clause turns every exception into \<open>False\<close>.\<close>

definition evaluate :: "rule \<Rightarrow> applicant \<Rightarrow> bool" where
  "evaluate r a = (case evaluate_loop a (antecedents r) of Inl e \<Rightarrow> False | Inr b \<Rightarrow> b)"

definition fire :: "rule \<Rightarrow> string \<times> rule" where
  "fire r = (consequent r, r\<lparr>fired_count := fired_count r + 1\<rparr>)"

section \<open>Rule base (engine/rule\_base.py)\<close>

definition initialize_rules :: "rule list" where
  "initialize_rules =
     [new_rule ''R1''
        [Cond ''income'' ''>'' (PInt 60000), Cond ''credit_score'' ''>'' (PInt 750)]
        ''Approve Loan'' ''High'' 2 ''High income (>60K) AND excellent credit (>750)'',
      new_rule ''R2''
        [Cond ''income'' ''in_range'' (PTuple [PInt 40000, PInt 60000]),
         Cond ''credit_score'' ''>'' (PInt 700),
         Cond ''existing_debt'' ''=='' (PStr ''None'')]
        ''Approve with Conditions'' ''Medium'' 3
        ''Moderate income (40K-60K) AND good credit (>700) AND no debt'',
      new_rule ''R3''
        [Cond ''credit_score'' ''<='' (PInt 650), Cond ''existing_debt'' ''=='' (PStr ''High'')]
        ''Reject Loan'' ''High'' 2 ''Poor credit (<=650) AND high existing debt'',
      new_rule ''R4''
        [Cond ''employment_status'' ''=='' (PStr ''Unemployed'')]
        ''Reject Loan'' ''High'' 1 ''Unemployed status'',
      new_rule ''R5''
        [Cond ''income'' ''in_range'' (PTuple [PInt 30000, PInt 50000]),
         Cond ''credit_score'' ''in_range'' (PTuple [PInt 600, PInt 700])]
        ''Manual Review'' ''Low'' 2 ''Moderate income (30K-50K) AND fair credit (600-700)'',
      new_rule ''R6''
        [Cond ''age'' ''<'' (PInt 21)]
        ''Reject Loan'' ''High'' 1 ''Applicant under 21 years old'',
      new_rule ''R7''
        [Cond ''dependents'' ''>'' (PInt 3), Cond ''income'' ''<'' (PInt 45000)]
        ''Manual Review'' ''Low'' 2 ''Many dependents (>3) AND low income (<45K)'',
      new_rule ''R8''
        [Cond ''employment_duration'' ''<'' (PInt 1), Cond ''credit_score'' ''<'' (PInt 700)]
        ''Manual Review'' ''Low'' 2
        ''Short employment (<1 year) AND below-good credit (<700)'']"

text \<open>The rule base is the list \<open>self.rules\<close>, in insertion order.\<close>

fun get_rule_by_id :: "rule list \<Rightarrow> string \<Rightarrow> rule option" where
  "get_rule_by_id [] rid = None"
| "get_rule_by_id (r # rs) rid = (if rule_id r = rid then Some r else get_rule_by_id rs rid)"

definition get_rules_by_consequent :: "rule list \<Rightarrow> string \<Rightarrow> rule list" where
  "get_rules_by_consequent rs c = filter (\<lambda>r. consequent r = c) rs"

definition add_rule :: "rule list \<Rightarrow> rule \<Rightarrow> rule list" where
  "add_rule rs r = rs @ [r]"

definition remove_rule :: "rule list \<Rightarrow> string \<Rightarrow> rule list" where
  "remove_rule rs rid = filter (\<lambda>r. rule_id r \<noteq> rid) rs"

section \<open>Conflict resolver (engine/conflict\_resolver.py)\<close>

text \<open>\<open>Config.PRIORITY_LEVELS.get(priority, 0)\<close>.\<close>

definition priority_levels_get :: "string \<Rightarrow> int" where
  "priority_levels_get p =
     (if p = ''High'' then 3 else if p = ''Medium'' then 2 else if p = ''Low'' then 1 else 0)"

text \<open>
  \<open>max(rules, key=...)\<close> on a non-empty list: the running maximum is replaced only by an
  item whose key is strictly greater, so the first of several maximal items is returned.
\<close>

fun py_max :: "('a \<Rightarrow> 'k::linorder) \<Rightarrow> 'a \<Rightarrow> 'a list \<Rightarrow> 'a" where
  "py_max key best [] = best"
| "py_max key best (x # xs) = (if key x > key best then py_max key x xs else py_max key best xs)"

definition priority_key :: "rule \<Rightarrow> int \<times> int \<times> string" where
  "priority_key r = (priority_levels_get (priority r), specificity r, rule_id r)"

definition specificity_key :: "rule \<Rightarrow> int \<times> int \<times> string" where
  "specificity_key r = (specificity r, priority_levels_get (priority r), rule_id r)"

text \<open>
  The three strategies, each on a non-empty list given as head and tail. The keys are
  tuples of two integers and a string, so the comparison inside \<open>max\<close> never raises and
  the \<open>except\<close> branch is not taken.
\<close>

definition resolve_by_priority :: "rule \<Rightarrow> rule list \<Rightarrow> rule" where
  "resolve_by_priority r rs = py_max priority_key r rs"

definition resolve_by_specificity :: "rule \<Rightarrow> rule list \<Rightarrow> rule" where
  "resolve_by_specificity r rs = py_max specificity_key r rs"

definition resolve_by_priority_specificity :: "rule \<Rightarrow> rule list \<Rightarrow> rule" where
  "resolve_by_priority_specificity r rs = py_max priority_key r rs"

definition select_winner :: "string \<Rightarrow> rule \<Rightarrow> rule list \<Rightarrow> rule" where
  "select_winner strategy r rs =
     (if strategy = ''priority'' then resolve_by_priority r rs
      else if strategy = ''specificity'' then resolve_by_specificity r rs
      else if strategy = ''priority_specificity'' then resolve_by_priority_specificity r rs
      else r)"

text \<open>
  \<open>resolve(fired_rules, trace_logger=None)\<close>: the winner, and the logger after the two
  conflict entries when a logger is passed and at least two rules compete.
\<close>

definition resolve ::
  "string \<Rightarrow> rule list \<Rightarrow> trace_logger option \<Rightarrow> rule option \<times> trace_logger option" where
  "resolve strategy fired_rules lg =
     (case fired_rules of
        [] \<Rightarrow> (None, lg)
      | [r] \<Rightarrow> (Some r, lg)
      | r # rs \<Rightarrow>
          (let lg1 = map_option (\<lambda>l. log_entry l ''CONFLICT'' None) lg;
               winner = select_winner strategy r rs;
               lg2 = map_option log_conflict lg1
           in (Some winner, lg2)))"

definition decision_priority :: "string \<Rightarrow> int option" where
  "decision_priority d =
     (if d = ''Reject Loan'' then Some 4
      else if d = ''Manual Review'' then Some 3
      else if d = ''Approve with Conditions'' then Some 2
      else if d = ''Approve Loan'' then Some 1
      else None)"

text \<open>
  In \<open>resolve_by_decision\<close> the variable \<open>best_score\<close> starts as the integer \<open>-1\<close> and each
  \<open>decision_score\<close> is a tuple of three integers. \<open>decision_score > best_score\<close> is the
  comparison of two such values: two tuples compare lexicographically, two integers as
  numbers, and a tuple against an integer raises \<open>TypeError\<close>.
\<close>

datatype score = IntScore int | TupleScore "int \<times> int \<times> int"

fun score_gt :: "score \<Rightarrow> score \<Rightarrow> py_error + bool" where
  "score_gt (TupleScore t) (TupleScore u) = Inr (t > u)"
| "score_gt (IntScore i) (IntScore j) = Inr (i > j)"
| "score_gt (TupleScore t) (IntScore j) = Inl TypeError"
| "score_gt (IntScore i) (TupleScore u) = Inl TypeError"

text \<open>
  The loop over \<open>rules_by_decision.items()\<close>, a dictionary in insertion order. The body of
  the \<open>try\<close> either updates the best pair, leaves it, or raises; \<open>TypeError\<close> and
  \<open>AttributeError\<close> are caught and the loop continues with the next group.
\<close>

fun decision_loop ::
  "string \<Rightarrow> (string \<times> rule list) list \<Rightarrow> string option \<Rightarrow> score \<Rightarrow> trace_logger option
     \<Rightarrow> string option \<times> score \<times> trace_logger option" where
  "decision_loop strategy [] best_decision best_score lg = (best_decision, best_score, lg)"
| "decision_loop strategy ((d, rs) # rest) best_decision best_score lg =
     (if rs = [] then decision_loop strategy rest best_decision best_score lg
      else
        (case resolve strategy rs lg of
           (None, lg') \<Rightarrow> decision_loop strategy rest best_decision best_score lg'
         | (Some best_rule, lg') \<Rightarrow>
             (let decision_score =
                    TupleScore (case decision_priority d of None \<Rightarrow> 0 | Some p \<Rightarrow> p,
                                priority_levels_get (priority best_rule),
                                specificity best_rule)
              in case score_gt decision_score best_score of
                   Inl e \<Rightarrow> decision_loop strategy rest best_decision best_score lg'
                 | Inr b \<Rightarrow>
                     if b then decision_loop strategy rest (Some d) decision_score lg'
                     else decision_loop strategy rest best_decision best_score lg')))"

text \<open>\<open>best_decision or 'Manual Review'\<close>: \<open>None\<close> and the empty string are both falsy.\<close>

definition resolve_by_decision ::
  "string \<Rightarrow> (string \<times> rule list) list \<Rightarrow> trace_logger option \<Rightarrow> string \<times> trace_logger option"
  where
  "resolve_by_decision strategy rules_by_decision lg =
     (case decision_loop strategy rules_by_decision None (IntScore (- 1)) lg of
        (best_decision, best_score, lg') \<Rightarrow>
          ((case best_decision of
              None \<Rightarrow> ''Manual Review''
            | Some d \<Rightarrow> if d = [] then ''Manual Review'' else d), lg'))"

section \<open>Forward chaining (engine/forward\_chaining.py)\<close>

text \<open>
  The dictionary \<open>decisions\<close> maps a consequent to the list of rules that produced it and
  keeps its keys in insertion order: a new key is added at the end with an empty list, and
  the rule is appended to the list of its key.
\<close>

fun decisions_append ::
  "(string \<times> rule list) list \<Rightarrow> string \<Rightarrow> rule \<Rightarrow> (string \<times> rule list) list" where
  "decisions_append [] k r = [(k, [r])]"
| "decisions_append ((k', rs) # rest) k r =
     (if k' = k then (k', rs @ [r]) # rest else (k', rs) # decisions_append rest k r)"

text \<open>
  One pass of the inner \<open>for\<close> loop over the rule base. \<open>fired\<close> is the list \<open>rules_fired\<close> of the
  earlier passes, which the loop does not change; \<open>this_iteration\<close> collects the rules
  that fire in this pass.
\<close>

fun forward_pass ::
  "rule list \<Rightarrow> applicant \<Rightarrow> rule list \<Rightarrow> rule list \<Rightarrow> (string \<times> rule list) list
     \<Rightarrow> trace_logger \<Rightarrow> rule list \<times> (string \<times> rule list) list \<times> trace_logger" where
  "forward_pass [] a fired this_iteration decisions lg = (this_iteration, decisions, lg)"
| "forward_pass (r # rest) a fired this_iteration decisions lg =
     (if rule_id r \<in> set (map rule_id fired)
      then forward_pass rest a fired this_iteration decisions lg
      else if evaluate r a
      then forward_pass rest a fired (this_iteration @ [r])
             (decisions_append decisions (consequent r) r)
             (log_rule_fired (log_rule_evaluation lg (rule_id r)) (rule_id r))
      else forward_pass rest a fired this_iteration decisions
             (log_rule_evaluation lg (rule_id r)))"

text \<open>
  The \<open>while iteration < max_iterations\<close> loop; it returns the number of passes made
  together with the fired rules, the decisions and the logger.
\<close>

function forward_loop ::
  "rule list \<Rightarrow> applicant \<Rightarrow> nat \<Rightarrow> nat \<Rightarrow> rule list \<Rightarrow> (string \<times> rule list) list
     \<Rightarrow> trace_logger \<Rightarrow> nat \<times> rule list \<times> (string \<times> rule list) list \<times> trace_logger" where
  "forward_loop rb a iteration max_iterations fired decisions lg =
     (if iteration < max_iterations then
        (case forward_pass rb a fired [] decisions lg of
           (this_iteration, decisions', lg') \<Rightarrow>
             if this_iteration = []
             then (iteration + 1, fired @ this_iteration, decisions', lg')
             else forward_loop rb a (iteration + 1) max_iterations
                    (fired @ this_iteration) decisions' lg')
      else (iteration, fired, decisions, lg))"
  by pat_completeness auto
termination
  by (relation "measure (\<lambda>(rb, a, iteration, max_iterations, rest). max_iterations - iteration)")
     auto

text \<open>
  \<open>ForwardChaining.infer\<close>, from the logger of the engine and the applicant to the
  decision, the trace summary, the logger and the applicant after the call. The second
  field of the result is the number of passes of the loop.
\<close>

definition forward_run ::
  "rule list \<Rightarrow> applicant \<Rightarrow> trace_logger
     \<Rightarrow> nat \<times> rule list \<times> (string \<times> rule list) list \<times> trace_logger" where
  "forward_run rb a lg =
     forward_loop rb a 0 (length rb * 2) [] [] (log_entry (start lg) ''SYSTEM'' None)"

definition forward_infer ::
  "rule list \<Rightarrow> string \<Rightarrow> trace_logger \<Rightarrow> applicant
     \<Rightarrow> (string \<times> summary) \<times> trace_logger \<times> applicant" where
  "forward_infer rb strategy lg a =
     (case forward_run rb a lg of
        (iteration, fired, decisions, lg1) \<Rightarrow>
          (case (if length decisions > 1
                 then (case resolve_by_decision strategy decisions (Some lg1) of
                         (d, l) \<Rightarrow> (d, case l of Some l' \<Rightarrow> l' | None \<Rightarrow> lg1))
                 else (case decisions of
                         [] \<Rightarrow> (''Manual Review'', lg1)
                       | (d, rs) # rest \<Rightarrow> (d, lg1))) of
             (final_decision, lg2) \<Rightarrow>
               (let lg3 = log_decision lg2;
                    tr = get_summary lg3
                in ((final_decision, tr), lg3,
                    set_decision a final_decision (Some (summary_trace tr))))))"

section \<open>Backward chaining (engine/backward\_chaining.py)\<close>

record backward_state =
  bc_logger :: trace_logger
  proven_goals :: "string set"
  failed_goals :: "string set"

text \<open>The loop of \<open>_prove_goal\<close> over the rules that conclude the goal.\<close>

fun check_rules ::
  "rule list \<Rightarrow> applicant \<Rightarrow> rule list \<Rightarrow> trace_logger \<Rightarrow> rule list \<times> trace_logger" where
  "check_rules [] a satisfied_rules lg = (satisfied_rules, lg)"
| "check_rules (r # rest) a satisfied_rules lg =
     (let lg1 = log_entry lg ''SYSTEM'' None in
      if evaluate r a
      then check_rules rest a (satisfied_rules @ [r])
             (log_rule_fired (log_rule_evaluation lg1 (rule_id r)) (rule_id r))
      else check_rules rest a satisfied_rules (log_rule_evaluation lg1 (rule_id r)))"

text \<open>
  \<open>_prove_goal(goal, applicant, depth)\<close>. The body makes no call to itself; \<open>depth\<close> is
  only compared with 10.
\<close>

definition prove_goal ::
  "rule list \<Rightarrow> string \<Rightarrow> string \<Rightarrow> applicant \<Rightarrow> nat \<Rightarrow> backward_state
     \<Rightarrow> bool \<times> backward_state" where
  "prove_goal rb strategy goal a depth st =
     (if goal \<in> proven_goals st
      then (True, st\<lparr>bc_logger := log_entry (bc_logger st) ''SYSTEM'' None\<rparr>)
      else if goal \<in> failed_goals st
      then (False, st\<lparr>bc_logger := log_entry (bc_logger st) ''SYSTEM'' None\<rparr>)
      else if depth > 10
      then (False, st\<lparr>bc_logger := log_entry (bc_logger st) ''SYSTEM'' None\<rparr>)
      else
        (let lg1 = log_entry (bc_logger st) ''SYSTEM'' None;
             rules_for_goal = get_rules_by_consequent rb goal
         in if rules_for_goal = []
            then (False, st\<lparr>bc_logger := log_entry lg1 ''SYSTEM'' None,
                             failed_goals := insert goal (failed_goals st)\<rparr>)
            else
              (case check_rules rules_for_goal a [] lg1 of
                 (satisfied_rules, lg2) \<Rightarrow>
                   if satisfied_rules \<noteq> []
                   then
                     (let lg3 = (if length satisfied_rules > 1
                                 then (case snd (resolve strategy satisfied_rules (Some lg2)) of
                                         Some l \<Rightarrow> l | None \<Rightarrow> lg2)
                                 else lg2)
                      in (True, st\<lparr>bc_logger := log_entry lg3 ''SYSTEM'' None,
                                     proven_goals := insert goal (proven_goals st)\<rparr>))
                   else (False, st\<lparr>bc_logger := log_entry lg2 ''SYSTEM'' None,
                                    failed_goals := insert goal (failed_goals st)\<rparr>))))"

text \<open>The \<open>for goal in goals\<close> loop of \<open>infer\<close>, left by \<open>break\<close> at the first proven goal.\<close>

fun try_goals ::
  "rule list \<Rightarrow> string \<Rightarrow> applicant \<Rightarrow> string list \<Rightarrow> backward_state
     \<Rightarrow> string option \<times> backward_state" where
  "try_goals rb strategy a [] st = (None, st)"
| "try_goals rb strategy a (goal # goals) st =
     (case prove_goal rb strategy goal a 0
             (st\<lparr>bc_logger := log_entry (bc_logger st) ''SYSTEM'' None\<rparr>) of
        (proved, st') \<Rightarrow>
          if proved then (Some goal, st'\<lparr>bc_logger := log_decision (bc_logger st')\<rparr>)
          else try_goals rb strategy a goals st')"

definition goal_order :: "string list" where
  "goal_order = [''Reject Loan'', ''Approve Loan'', ''Approve with Conditions'', ''Manual Review'']"

definition backward_infer ::
  "rule list \<Rightarrow> string \<Rightarrow> backward_state \<Rightarrow> applicant
     \<Rightarrow> (string \<times> summary) \<times> backward_state \<times> applicant" where
  "backward_infer rb strategy st a =
     (let st0 = \<lparr>bc_logger = start (bc_logger st), proven_goals = {}, failed_goals = {}\<rparr>
      in case try_goals rb strategy a goal_order st0 of
           (found, st1) \<Rightarrow>
             (case (case found of
                      Some d \<Rightarrow> (d, st1)
                    | None \<Rightarrow> (''Manual Review'',
                               st1\<lparr>bc_logger := log_decision (bc_logger st1)\<rparr>)) of
                (final_decision, st2) \<Rightarrow>
                  (let tr = get_summary (bc_logger st2)
                   in ((final_decision, tr), st2,
                       set_decision a final_decision (Some (summary_trace tr))))))"

section \<open>Rule engine (engine/rule\_engine.py)\<close>

text \<open>
  The engine holds one rule base and one conflict resolver, shared with both chaining
  engines, and the state of each chaining engine.
\<close>

record rule_engine =
  chaining_type :: string
  rule_base :: "rule list"
  strategy :: string
  forward_logger :: trace_logger
  backward_chain :: backward_state

definition new_rule_engine :: "string \<Rightarrow> rule_engine" where
  "new_rule_engine ct =
     \<lparr>chaining_type = ct, rule_base = initialize_rules, strategy = ''priority_specificity'',
      forward_logger = new_trace_logger 50,
      backward_chain = \<lparr>bc_logger = new_trace_logger 50, proven_goals = {}, failed_goals = {}\<rparr>\<rparr>"

text \<open>
  The result dictionary of \<open>evaluate_applicant\<close>, without its keys \<open>applicant_id\<close> and
  \<open>applicant_data\<close>, which copy the input.
\<close>

record results =
  forward_chaining :: "(string \<times> summary) option"
  backward_chaining :: "(string \<times> summary) option"
  final_decision :: string
  reasoning :: "string option"

text \<open>
  The merge of the two opinions when the chaining type is neither \<open>forward\<close> nor
  \<open>backward\<close>. Reading the decision of a strategy that did not run subscripts \<open>None\<close> and
  raises \<open>TypeError\<close>; \<open>decision_priority[d]\<close> raises \<open>KeyError\<close> for a label outside the
  table.
\<close>

definition merge_decisions ::
  "(string \<times> summary) option \<Rightarrow> (string \<times> summary) option
     \<Rightarrow> py_error + (string \<times> string option)" where
  "merge_decisions fc bc =
     (case fc of
        None \<Rightarrow> Inl TypeError
      | Some (fc_decision, fc_trace) \<Rightarrow>
          (case bc of
             None \<Rightarrow> Inl TypeError
           | Some (bc_decision, bc_trace) \<Rightarrow>
               if fc_decision = bc_decision
               then Inr (fc_decision, Some ''Both forward and backward chaining agree'')
               else
                 (case decision_priority fc_decision of
                    None \<Rightarrow> Inl KeyError
                  | Some pf \<Rightarrow>
                      (case decision_priority bc_decision of
                         None \<Rightarrow> Inl KeyError
                       | Some pb \<Rightarrow>
                           Inr (if pf \<ge> pb then fc_decision else bc_decision,
                                Some (''Forward chaining: '' @ fc_decision
                                      @ '', Backward chaining: '' @ bc_decision))))))"

definition evaluate_applicant ::
  "rule_engine \<Rightarrow> applicant \<Rightarrow> py_error + (results \<times> rule_engine \<times> applicant)" where
  "evaluate_applicant e a =
     (case (if chaining_type e = ''forward'' \<or> chaining_type e = ''both''
            then (case forward_infer (rule_base e) (strategy e) (forward_logger e) a of
                    (r, lg, a') \<Rightarrow> (Some r, e\<lparr>forward_logger := lg\<rparr>, a'))
            else (None, e, a)) of
        (fc, e1, a1) \<Rightarrow>
          (case (if chaining_type e = ''backward'' \<or> chaining_type e = ''both''
                 then (case backward_infer (rule_base e1) (strategy e1) (backward_chain e1) a1 of
                         (r, st, a') \<Rightarrow> (Some r, e1\<lparr>backward_chain := st\<rparr>, a'))
                 else (None, e1, a1)) of
             (bc, e2, a2) \<Rightarrow>
               (case (if chaining_type e = ''forward''
                      then (case fc of None \<Rightarrow> Inl TypeError | Some (d, t) \<Rightarrow> Inr (d, None))
                      else if chaining_type e = ''backward''
                      then (case bc of None \<Rightarrow> Inl TypeError | Some (d, t) \<Rightarrow> Inr (d, None))
                      else merge_decisions fc bc) of
                  Inl err \<Rightarrow> Inl err
                | Inr (final, why) \<Rightarrow>
                    Inr (\<lparr>forward_chaining = fc, backward_chaining = bc,
                          final_decision = final, reasoning = why\<rparr>,
                         e2, set_decision a2 final None))))"

section \<open>Fixtures of the test suite (tests/test\_engine.py)\<close>

definition applicant_A1 :: applicant where
  "applicant_A1 =
     new_applicant ''A1'' (PInt 70000) (PInt 760) (PStr ''Employed'') (PInt 5) (PInt 30)
       (PInt 2) (PStr ''Low'')"

definition applicant_A5 :: applicant where
  "applicant_A5 =
     new_applicant ''A5'' (PInt 55000) (PInt 680) (PStr ''Unemployed'') (PInt 0) (PInt 28)
       (PInt 2) (PStr ''Low'')"

definition applicant_TEST_AGE :: applicant where
  "applicant_TEST_AGE =
     new_applicant ''TEST_AGE'' (PInt 100000) (PInt 800) (PStr ''Employed'') (PInt 5) (PInt 20)
       (PInt 0) (PStr ''None'')"

section \<open>Notions used to state the properties\<close>

text \<open>An antecedent is satisfied when its test returns a true value without raising.\<close>

definition satisfied :: "applicant \<Rightarrow> condition \<Rightarrow> bool" where
  "satisfied a c = (check_condition a c = Inr True)"

text \<open>A goal is provable when some rule of the rule base concludes it and evaluates true.\<close>

definition provable :: "rule list \<Rightarrow> applicant \<Rightarrow> string \<Rightarrow> bool" where
  "provable rb a goal = list_ex (\<lambda>r. consequent r = goal \<and> evaluate r a) rb"

text \<open>
  The higher of two decisions under
  Reject Loan > Manual Review > Approve with Conditions > Approve Loan.
\<close>

definition higher_precedence :: "string \<Rightarrow> string \<Rightarrow> string" where
  "higher_precedence d1 d2 =
     (if d1 = ''Reject Loan'' \<or> d2 = ''Reject Loan'' then ''Reject Loan''
      else if d1 = ''Manual Review'' \<or> d2 = ''Manual Review'' then ''Manual Review''
      else if d1 = ''Approve with Conditions'' \<or> d2 = ''Approve with Conditions''
      then ''Approve with Conditions''
      else ''Approve Loan'')"

text \<open>
  The values stored in the decision field during one call of \<open>evaluate_applicant\<close>, in
  the order of the assignments; nothing when the call raises.
\<close>

definition writes_during :: "rule_engine \<Rightarrow> applicant \<Rightarrow> string list option" where
  "writes_during e a =
     (case evaluate_applicant e a of
        Inl err \<Rightarrow> None
      | Inr (res, e', a') \<Rightarrow> Some (drop (length (decision_writes a)) (decision_writes a')))"

section \<open>Rule base: lookup and removal\<close>

lemma get_rule_by_id_None: "get_rule_by_id rs rid = None \<longleftrightarrow> rid \<notin> rule_id ` set rs"
  by (induction rs) auto

lemma get_rule_by_id_Some:
  "get_rule_by_id rs rid = Some r \<Longrightarrow>
     \<exists>pre post. rs = pre @ r # post \<and> rule_id r = rid \<and> rid \<notin> rule_id ` set pre"
proof (induction rs)
  case Nil
  then show ?case by simp
next
  case (Cons x xs)
  show ?case
  proof (cases "rule_id x = rid")
    case True
    with Cons.prems have "x = r" by simp
    with True have "x # xs = [] @ r # xs \<and> rule_id r = rid \<and> rid \<notin> rule_id ` set []"
      by simp
    then show ?thesis by blast
  next
    case False
    with Cons.prems have "get_rule_by_id xs rid = Some r" by simp
    from Cons.IH [OF this] obtain pre post where
      h: "xs = pre @ r # post" "rule_id r = rid" "rid \<notin> rule_id ` set pre" by blast
    with False have
      "x # xs = (x # pre) @ r # post \<and> rule_id r = rid \<and> rid \<notin> rule_id ` set (x # pre)"
      by auto
    then show ?thesis by blast
  qed
qed

lemma get_rule_by_id_append:
  "get_rule_by_id (xs @ ys) rid =
     (case get_rule_by_id xs rid of Some r \<Rightarrow> Some r | None \<Rightarrow> get_rule_by_id ys rid)"
  by (induction xs) auto

text \<open>
  C10. \<open>get_rule_by_id\<close> returns the first rule, in insertion order, that bears the
  identifier (no rule before it bears it), and nothing when no rule bears it.
  \<open>remove_rule\<close> keeps exactly the rules with another identifier, so a lookup after the
  removal finds nothing. When two rules with one identifier are added to a rule base that
  does not use it, the lookup returns the first of the two and the removal deletes both.
\<close>

theorem lookup_first_removal_all:
  "(case get_rule_by_id rs rid of
      None \<Rightarrow> rid \<notin> rule_id ` set rs
    | Some r \<Rightarrow> \<exists>pre post. rs = pre @ r # post \<and> rule_id r = rid \<and> rid \<notin> rule_id ` set pre)
   \<and> set (remove_rule rs rid) = {r \<in> set rs. rule_id r \<noteq> rid}
   \<and> get_rule_by_id (remove_rule rs rid) rid = None
   \<and> (rule_id r1 = rid \<and> rule_id r2 = rid \<and> rid \<notin> rule_id ` set rs \<longrightarrow>
        get_rule_by_id (add_rule (add_rule rs r1) r2) rid = Some r1
        \<and> remove_rule (add_rule (add_rule rs r1) r2) rid = rs)"
proof -
  have a: "case get_rule_by_id rs rid of
      None \<Rightarrow> rid \<notin> rule_id ` set rs
    | Some r \<Rightarrow> \<exists>pre post. rs = pre @ r # post \<and> rule_id r = rid \<and> rid \<notin> rule_id ` set pre"
    using get_rule_by_id_None [of rs rid] get_rule_by_id_Some [of rs rid]
    by (cases "get_rule_by_id rs rid") auto
  have b: "set (remove_rule rs rid) = {r \<in> set rs. rule_id r \<noteq> rid}"
    by (auto simp: remove_rule_def)
  have c: "get_rule_by_id (remove_rule rs rid) rid = None"
    using b by (auto simp: get_rule_by_id_None)
  have d: "rule_id r1 = rid \<and> rule_id r2 = rid \<and> rid \<notin> rule_id ` set rs \<longrightarrow>
        get_rule_by_id (add_rule (add_rule rs r1) r2) rid = Some r1
        \<and> remove_rule (add_rule (add_rule rs r1) r2) rid = rs"
  proof (intro impI, elim conjE)
    assume h: "rule_id r1 = rid" "rule_id r2 = rid" "rid \<notin> rule_id ` set rs"
    from h(3) have n: "get_rule_by_id rs rid = None" by (simp add: get_rule_by_id_None)
    from h(3) have f: "filter (\<lambda>r. rule_id r \<noteq> rid) rs = rs"
      by (induction rs) auto
    show "get_rule_by_id (add_rule (add_rule rs r1) r2) rid = Some r1
        \<and> remove_rule (add_rule (add_rule rs r1) r2) rid = rs"
      using h n f by (simp add: add_rule_def remove_rule_def get_rule_by_id_append)
  qed
  from a b c d show ?thesis by blast
qed

theorem lookup_first_removal_all_witness:
  "get_rule_by_id
     (add_rule (add_rule [] (new_rule ''R9'' [] ''Reject Loan'' ''High'' 1 ''first''))
        (new_rule ''R9'' [] ''Approve Loan'' ''Low'' 2 ''second'')) ''R9''
     = Some (new_rule ''R9'' [] ''Reject Loan'' ''High'' 1 ''first'')
   \<and> remove_rule
     (add_rule (add_rule [] (new_rule ''R9'' [] ''Reject Loan'' ''High'' 1 ''first''))
        (new_rule ''R9'' [] ''Approve Loan'' ''Low'' 2 ''second'')) ''R9'' = []"
  using lookup_first_removal_all [where rs = "[]" and rid = "''R9''"
      and ?r1.0 = "new_rule ''R9'' [] ''Reject Loan'' ''High'' 1 ''first''"
      and ?r2.0 = "new_rule ''R9'' [] ''Approve Loan'' ''Low'' 2 ''second''"]
  by (simp add: new_rule_def)

section \<open>Trace logger: capacity\<close>

lemma log_entry_length:
  "length (trace (log_entry lg lvl rid)) =
     (if int (length (trace lg)) < max_depth lg then Suc (length (trace lg))
      else length (trace lg))"
  by (simp add: log_entry_def)

lemma log_entry_max_depth: "max_depth (log_entry lg lvl rid) = max_depth lg"
  by (simp add: log_entry_def)

lemma log_all_max_depth: "max_depth (log_all lg evs) = max_depth lg"
  by (induction lg evs rule: log_all.induct) (simp_all add: log_entry_max_depth)

lemma log_all_length:
  "int (length (trace lg)) \<le> max_depth lg \<Longrightarrow>
   length (trace (log_all lg evs)) = min (length (trace lg) + length evs) (nat (max_depth lg))"
proof (induction lg evs rule: log_all.induct)
  case (1 lg)
  then show ?case by simp
next
  case (2 lg lvl rid evs)
  have "int (length (trace (log_entry lg lvl rid))) \<le> max_depth (log_entry lg lvl rid)"
    using "2.prems" by (simp add: log_entry_length log_entry_max_depth)
  from "2.IH" [OF this] "2.prems" show ?case
    by (auto simp: log_entry_length log_entry_max_depth)
qed

lemma log_entry_take: "take (length (trace lg)) (trace (log_entry lg lvl rid)) = trace lg"
  by (simp add: log_entry_def)

text \<open>
  C9. Let the capacity \<open>max_depth\<close> be \<open>N \<ge> 0\<close> and let the trace hold at most \<open>N\<close>
  entries. A log call keeps the bound, keeps the entries already there in place (the trace
  only grows at its end), and changes nothing at all when the trace already holds \<open>N\<close>
  entries. After any sequence of log calls the summary reports at most \<open>N\<close> entries, and a
  run that starts from the empty trace (with or without the entry written by \<open>start\<close>) and
  makes more than \<open>N\<close> log calls reports exactly \<open>N\<close>.
\<close>

theorem trace_capacity_bound:
  assumes "0 \<le> max_depth lg" and "int (length (trace lg)) \<le> max_depth lg"
  shows "int (length (trace (log_entry lg lvl rid))) \<le> max_depth (log_entry lg lvl rid)
    \<and> take (length (trace lg)) (trace (log_entry lg lvl rid)) = trace lg
    \<and> (int (length (trace lg)) = max_depth lg \<longrightarrow> log_entry lg lvl rid = lg)
    \<and> int (total_entries (get_summary (log_all lg evs))) \<le> max_depth lg
    \<and> (int (length evs) > max_depth lg \<longrightarrow>
         int (total_entries (get_summary (log_all (start lg) evs))) = max_depth lg
         \<and> int (total_entries (get_summary (log_all (lg\<lparr>trace := []\<rparr>) evs))) = max_depth lg)"
proof -
  have a: "int (length (trace (log_entry lg lvl rid))) \<le> max_depth (log_entry lg lvl rid)"
    using assms(2) by (simp add: log_entry_length log_entry_max_depth)
  have b: "int (length (trace lg)) = max_depth lg \<longrightarrow> log_entry lg lvl rid = lg"
    by (simp add: log_entry_def)
  have c: "int (total_entries (get_summary (log_all lg evs))) \<le> max_depth lg"
    using assms by (simp add: get_summary_def log_all_length)
  have s: "int (length (trace (start lg))) \<le> max_depth (start lg)"
    using assms(1) by (simp add: start_def log_entry_def)
  have d: "int (length evs) > max_depth lg \<longrightarrow>
         int (total_entries (get_summary (log_all (start lg) evs))) = max_depth lg"
    using assms(1) log_all_length [OF s, of evs]
    by (auto simp: get_summary_def start_def log_entry_def)
  have e: "int (length evs) > max_depth lg \<longrightarrow>
         int (total_entries (get_summary (log_all (lg\<lparr>trace := []\<rparr>) evs))) = max_depth lg"
    using assms(1) log_all_length [of "lg\<lparr>trace := []\<rparr>" evs]
    by (auto simp: get_summary_def)
  from a b c d e log_entry_take [of lg lvl rid] show ?thesis by blast
qed

theorem trace_capacity_bound_witness:
  "0 \<le> max_depth (new_trace_logger 2)
   \<and> int (length (trace (new_trace_logger 2))) \<le> max_depth (new_trace_logger 2)
   \<and> int (length [(''SYSTEM'', None), (''RULE_EVAL'', Some ''R1''), (''DECISION'', None)])
       > max_depth (new_trace_logger 2)
   \<and> int (total_entries (get_summary (log_all (start (new_trace_logger 2))
       [(''SYSTEM'', None), (''RULE_EVAL'', Some ''R1''), (''DECISION'', None)]))) = 2"
  using trace_capacity_bound [where lg = "new_trace_logger 2" and lvl = "''SYSTEM''"
      and rid = None
      and evs = "[(''SYSTEM'', None), (''RULE_EVAL'', Some ''R1''), (''DECISION'', None)]"]
  by (simp add: new_trace_logger_def)

section \<open>Conflict resolver: the winning rule\<close>

lemma py_max_mem: "py_max key b xs \<in> set (b # xs)"
  by (induction xs arbitrary: b) (auto split: if_splits)

lemma py_max_ge_best: "key b \<le> key (py_max key b xs)"
proof (induction xs arbitrary: b)
  case Nil
  then show ?case by simp
next
  case (Cons x xs)
  show ?case
  proof (cases "key x > key b")
    case True
    have "key x \<le> key (py_max key x xs)" by (rule Cons.IH)
    with True show ?thesis by simp
  next
    case False
    then show ?thesis using Cons.IH [of b] by simp
  qed
qed

lemma py_max_ge: "x \<in> set (b # xs) \<Longrightarrow> key x \<le> key (py_max key b xs)"
proof (induction xs arbitrary: b)
  case Nil
  then show ?case by simp
next
  case (Cons y ys)
  show ?case
  proof (cases "key y > key b")
    case True
    from Cons.prems consider "x = b" | "x \<in> set (y # ys)" by auto
    then show ?thesis
    proof cases
      case 1
      have "key y \<le> key (py_max key y ys)" by (rule py_max_ge_best)
      with True 1 show ?thesis by simp
    next
      case 2
      from Cons.IH [OF 2] True show ?thesis by simp
    qed
  next
    case False
    from Cons.prems consider "x = y" | "x \<in> set (b # ys)" by auto
    then show ?thesis
    proof cases
      case 1
      have "key b \<le> key (py_max key b ys)" by (rule py_max_ge_best)
      with False 1 show ?thesis by simp
    next
      case 2
      from Cons.IH [OF 2] False show ?thesis by simp
    qed
  qed
qed

lemma priority_key_le:
  "priority_key r \<le> priority_key w \<longleftrightarrow>
     priority_levels_get (priority r) < priority_levels_get (priority w)
     \<or> (priority_levels_get (priority r) = priority_levels_get (priority w)
        \<and> (specificity r < specificity w
           \<or> (specificity r = specificity w \<and> rule_id r \<le> rule_id w)))"
  by (auto simp: priority_key_def less_eq_prod_def)

lemma specificity_key_le:
  "specificity_key r \<le> specificity_key w \<longleftrightarrow>
     specificity r < specificity w
     \<or> (specificity r = specificity w
        \<and> (priority_levels_get (priority r) < priority_levels_get (priority w)
           \<or> (priority_levels_get (priority r) = priority_levels_get (priority w)
              \<and> rule_id r \<le> rule_id w)))"
  by (auto simp: specificity_key_def less_eq_prod_def)

lemma key_eq_same_id:
  "priority_key r = priority_key w \<Longrightarrow> rule_id r = rule_id w"
  "specificity_key r = specificity_key w \<Longrightarrow> rule_id r = rule_id w"
  by (simp_all add: priority_key_def specificity_key_def)

lemma distinct_ids_neq:
  "distinct (map rule_id rs) \<Longrightarrow> r \<in> set rs \<Longrightarrow> w \<in> set rs \<Longrightarrow> r \<noteq> w
     \<Longrightarrow> rule_id r \<noteq> rule_id w"
  by (metis distinct_map inj_on_def)


lemma resolve_two_or_more:
  "2 \<le> length rs \<Longrightarrow>
     \<exists>a b rest. rs = a # b # rest
       \<and> fst (resolve s rs lg) = Some (select_winner s a (b # rest))"
proof -
  assume "2 \<le> length rs"
  then obtain a b rest where "rs = a # b # rest"
    by (cases rs; cases "tl rs") auto
  then show ?thesis by (auto simp: resolve_def Let_def)
qed

text \<open>
  C6. \<open>resolve\<close> returns no winner for the empty list and the sole candidate for a
  one-element list. For two or more candidates, under \<open>priority\<close> and
  \<open>priority_specificity\<close> the winner is a candidate that no candidate exceeds in the order
  of priority level first, specificity second and rule identifier last; under
  \<open>specificity\<close> the first two criteria are exchanged. The rule identifier decides whenever
  level and specificity are equal, and when the identifiers of the candidates are distinct
  every other candidate is strictly below the winner. The levels are High = 3, Medium = 2,
  Low = 1 and 0 for any other priority.
\<close>

theorem resolve_selects_maximum:
  "fst (resolve s [] lg) = None
   \<and> fst (resolve s [r] lg) = Some r
   \<and> (2 \<le> length rs \<and> (s = ''priority'' \<or> s = ''priority_specificity'') \<longrightarrow>
        (\<exists>w. fst (resolve s rs lg) = Some w \<and> w \<in> set rs
           \<and> (\<forall>x\<in>set rs.
                 priority_levels_get (priority x) < priority_levels_get (priority w)
                 \<or> (priority_levels_get (priority x) = priority_levels_get (priority w)
                    \<and> (specificity x < specificity w
                       \<or> (specificity x = specificity w \<and> rule_id x \<le> rule_id w))))
           \<and> (distinct (map rule_id rs) \<longrightarrow>
                 (\<forall>x\<in>set rs. x \<noteq> w \<longrightarrow> priority_key x < priority_key w))))
   \<and> (2 \<le> length rs \<and> s = ''specificity'' \<longrightarrow>
        (\<exists>w. fst (resolve s rs lg) = Some w \<and> w \<in> set rs
           \<and> (\<forall>x\<in>set rs.
                 specificity x < specificity w
                 \<or> (specificity x = specificity w
                    \<and> (priority_levels_get (priority x) < priority_levels_get (priority w)
                       \<or> (priority_levels_get (priority x) = priority_levels_get (priority w)
                          \<and> rule_id x \<le> rule_id w))))
           \<and> (distinct (map rule_id rs) \<longrightarrow>
                 (\<forall>x\<in>set rs. x \<noteq> w \<longrightarrow> specificity_key x < specificity_key w))))
   \<and> priority_levels_get ''High'' = 3 \<and> priority_levels_get ''Medium'' = 2
   \<and> priority_levels_get ''Low'' = 1
   \<and> (p \<noteq> ''High'' \<and> p \<noteq> ''Medium'' \<and> p \<noteq> ''Low'' \<longrightarrow> priority_levels_get p = 0)"
proof -
  have a: "fst (resolve s [] lg) = None" "fst (resolve s [r] lg) = Some r"
    by (simp_all add: resolve_def)
  have b: "2 \<le> length rs \<and> (s = ''priority'' \<or> s = ''priority_specificity'') \<longrightarrow>
        (\<exists>w. fst (resolve s rs lg) = Some w \<and> w \<in> set rs
           \<and> (\<forall>x\<in>set rs.
                 priority_levels_get (priority x) < priority_levels_get (priority w)
                 \<or> (priority_levels_get (priority x) = priority_levels_get (priority w)
                    \<and> (specificity x < specificity w
                       \<or> (specificity x = specificity w \<and> rule_id x \<le> rule_id w))))
           \<and> (distinct (map rule_id rs) \<longrightarrow>
                 (\<forall>x\<in>set rs. x \<noteq> w \<longrightarrow> priority_key x < priority_key w)))"
  proof (intro impI, elim conjE)
    assume len: "2 \<le> length rs" and st: "s = ''priority'' \<or> s = ''priority_specificity''"
    from resolve_two_or_more [OF len, of s lg] obtain a b rest where
      rs: "rs = a # b # rest" and
      res: "fst (resolve s rs lg) = Some (select_winner s a (b # rest))" by blast
    define w where "w = py_max priority_key a (b # rest)"
    from st have sw: "select_winner s a (b # rest) = w"
      by (auto simp: select_winner_def resolve_by_priority_def
          resolve_by_priority_specificity_def w_def)
    have mem: "w \<in> set rs" unfolding w_def rs by (rule py_max_mem)
    have ge: "\<forall>x\<in>set rs. priority_key x \<le> priority_key w"
      unfolding w_def rs using py_max_ge [of _ a "b # rest" priority_key] by blast
    have strict: "distinct (map rule_id rs) \<longrightarrow>
                 (\<forall>x\<in>set rs. x \<noteq> w \<longrightarrow> priority_key x < priority_key w)"
    proof (intro impI ballI)
      fix x assume d: "distinct (map rule_id rs)" and x: "x \<in> set rs" and ne: "x \<noteq> w"
      from distinct_ids_neq [OF d x mem ne] have "priority_key x \<noteq> priority_key w"
        using key_eq_same_id(1) by blast
      with ge x show "priority_key x < priority_key w" by (simp add: order.strict_iff_order)
    qed
    from res sw mem ge strict show
      "\<exists>w. fst (resolve s rs lg) = Some w \<and> w \<in> set rs
           \<and> (\<forall>x\<in>set rs.
                 priority_levels_get (priority x) < priority_levels_get (priority w)
                 \<or> (priority_levels_get (priority x) = priority_levels_get (priority w)
                    \<and> (specificity x < specificity w
                       \<or> (specificity x = specificity w \<and> rule_id x \<le> rule_id w))))
           \<and> (distinct (map rule_id rs) \<longrightarrow>
                 (\<forall>x\<in>set rs. x \<noteq> w \<longrightarrow> priority_key x < priority_key w))"
      by (auto simp: priority_key_le [symmetric])
  qed
  have c: "2 \<le> length rs \<and> s = ''specificity'' \<longrightarrow>
        (\<exists>w. fst (resolve s rs lg) = Some w \<and> w \<in> set rs
           \<and> (\<forall>x\<in>set rs.
                 specificity x < specificity w
                 \<or> (specificity x = specificity w
                    \<and> (priority_levels_get (priority x) < priority_levels_get (priority w)
                       \<or> (priority_levels_get (priority x) = priority_levels_get (priority w)
                          \<and> rule_id x \<le> rule_id w))))
           \<and> (distinct (map rule_id rs) \<longrightarrow>
                 (\<forall>x\<in>set rs. x \<noteq> w \<longrightarrow> specificity_key x < specificity_key w)))"
  proof (intro impI, elim conjE)
    assume len: "2 \<le> length rs" and st: "s = ''specificity''"
    from resolve_two_or_more [OF len, of s lg] obtain a b rest where
      rs: "rs = a # b # rest" and
      res: "fst (resolve s rs lg) = Some (select_winner s a (b # rest))" by blast
    define w where "w = py_max specificity_key a (b # rest)"
    from st have sw: "select_winner s a (b # rest) = w"
      by (simp add: select_winner_def resolve_by_specificity_def w_def)
    have mem: "w \<in> set rs" unfolding w_def rs by (rule py_max_mem)
    have ge: "\<forall>x\<in>set rs. specificity_key x \<le> specificity_key w"
      unfolding w_def rs using py_max_ge [of _ a "b # rest" specificity_key] by blast
    have strict: "distinct (map rule_id rs) \<longrightarrow>
                 (\<forall>x\<in>set rs. x \<noteq> w \<longrightarrow> specificity_key x < specificity_key w)"
    proof (intro impI ballI)
      fix x assume d: "distinct (map rule_id rs)" and x: "x \<in> set rs" and ne: "x \<noteq> w"
      from distinct_ids_neq [OF d x mem ne] have "specificity_key x \<noteq> specificity_key w"
        using key_eq_same_id(2) by blast
      with ge x show "specificity_key x < specificity_key w"
        by (simp add: order.strict_iff_order)
    qed
    from res sw mem ge strict show
      "\<exists>w. fst (resolve s rs lg) = Some w \<and> w \<in> set rs
           \<and> (\<forall>x\<in>set rs.
                 specificity x < specificity w
                 \<or> (specificity x = specificity w
                    \<and> (priority_levels_get (priority x) < priority_levels_get (priority w)
                       \<or> (priority_levels_get (priority x) = priority_levels_get (priority w)
                          \<and> rule_id x \<le> rule_id w))))
           \<and> (distinct (map rule_id rs) \<longrightarrow>
                 (\<forall>x\<in>set rs. x \<noteq> w \<longrightarrow> specificity_key x < specificity_key w))"
      by (auto simp: specificity_key_le [symmetric])
  qed
  have d: "priority_levels_get ''High'' = 3" "priority_levels_get ''Medium'' = 2"
    "priority_levels_get ''Low'' = 1"
    "p \<noteq> ''High'' \<and> p \<noteq> ''Medium'' \<and> p \<noteq> ''Low'' \<longrightarrow> priority_levels_get p = 0"
    by (simp_all add: priority_levels_get_def)
  from a b c d show ?thesis by blast
qed

theorem resolve_selects_maximum_witness:
  "2 \<le> length [initialize_rules ! 4, initialize_rules ! 0]
   \<and> distinct (map rule_id [initialize_rules ! 4, initialize_rules ! 0])
   \<and> fst (resolve ''priority'' [initialize_rules ! 4, initialize_rules ! 0] None)
       = Some (initialize_rules ! 0)
   \<and> rule_id (initialize_rules ! 0) = ''R1'' \<and> rule_id (initialize_rules ! 4) = ''R5''"
  using resolve_selects_maximum [where s = "''priority''" and lg = None
      and rs = "[initialize_rules ! 4, initialize_rules ! 0]" and r = "initialize_rules ! 0"
      and p = "''Other''"]
  by (auto simp: initialize_rules_def new_rule_def priority_levels_get_def priority_key_def)

section \<open>Rule evaluation\<close>

lemma evaluate_loop_True: "evaluate_loop a cs = Inr True \<longleftrightarrow> list_all (satisfied a) cs"
proof (induction cs)
  case Nil
  then show ?case by simp
next
  case (Cons c cs)
  show ?case
  proof (cases "check_condition a c")
    case (Inl e)
    then show ?thesis by (simp add: satisfied_def)
  next
    case (Inr b)
    with Cons.IH show ?thesis by (cases b) (simp_all add: satisfied_def)
  qed
qed

lemma evaluate_iff: "evaluate r a \<longleftrightarrow> list_all (satisfied a) (antecedents r)"
proof -
  have "evaluate r a \<longleftrightarrow> evaluate_loop a (antecedents r) = Inr True"
    by (cases "evaluate_loop a (antecedents r)") (auto simp: evaluate_def)
  then show ?thesis by (simp add: evaluate_loop_True)
qed

lemma evaluate_loop_stops:
  "list_all (satisfied a) pre \<Longrightarrow> \<not> satisfied a c \<Longrightarrow>
     evaluate_loop a (pre @ c # post) =
       (case check_condition a c of Inl e \<Rightarrow> Inl e | Inr b \<Rightarrow> Inr False)"
proof (induction pre)
  case Nil
  then show ?case
    by (cases "check_condition a c") (auto simp: satisfied_def)
next
  case (Cons p pre)
  from Cons.prems have "check_condition a p = Inr True" by (simp add: satisfied_def)
  moreover from Cons.prems have "list_all (satisfied a) pre" by simp
  ultimately show ?case using Cons.IH Cons.prems(2) by simp
qed

lemma absent_attribute_False:
  "getattr a attr = PNone \<Longrightarrow> check_condition a (Cond attr operator val) = Inr False"
  by (simp add: evaluate_condition_def)

lemma unknown_operator_False:
  "operator \<notin> set [''>'', ''>='', ''<'', ''<='', ''=='', ''!='', ''in_range''] \<Longrightarrow>
     check_condition a (Cond attr operator val) = Inr False"
  by (simp add: evaluate_condition_def Let_def)

lemma number_against_string_raises:
  assumes "py_num (getattr a attr) = Some x"
    and "operator \<in> set [''>'', ''>='', ''<'', ''<='']"
  shows "check_condition a (Cond attr operator (PStr t)) = Inl TypeError"
proof -
  from assms(1) have ne: "getattr a attr \<noteq> PNone" by auto
  from assms(1) have ord: "py_ord c (getattr a attr) (PStr t) = Inl TypeError" for c
    by (cases "getattr a attr") simp_all
  from assms(2) ne ord show ?thesis
    by (auto simp: evaluate_condition_def Let_def)
qed

lemma py_ord_numbers:
  "py_num u = Some x \<Longrightarrow> py_num v = Some y \<Longrightarrow> py_ord c u v = Inr (ord_apply c x y)"
  by (cases u) simp_all

lemma in_range_inclusive:
  assumes "py_num (getattr a attr) = Some x" and "py_num lo = Some l" and "py_num hi = Some h"
  shows "check_condition a (Cond attr ''in_range'' (PTuple [lo, hi])) = Inr (l \<le> x \<and> x \<le> h)"
proof -
  from assms(1) have ne: "getattr a attr \<noteq> PNone" by auto
  have lo: "py_ord OpLe lo (getattr a attr) = Inr (l \<le> x)"
    using py_ord_numbers [OF assms(2) assms(1), of OpLe] by simp
  have hi: "py_ord OpLe (getattr a attr) hi = Inr (x \<le> h)"
    using py_ord_numbers [OF assms(1) assms(3), of OpLe] by simp
  show ?thesis using ne lo hi by (simp add: evaluate_condition_def Let_def)
qed

text \<open>
  C4. \<open>evaluate\<close> returns true exactly when every antecedent is satisfied. The loop stops
  at the first antecedent that is not satisfied: when the antecedents before it hold, its
  outcome is that of this antecedent alone, whatever follows it in the list. An antecedent
  that raises makes \<open>evaluate\<close> return false, so \<open>evaluate\<close> always returns a truth
  value. A condition on an attribute that reads as \<open>None\<close> is false, a condition with an
  operator outside the seven known ones is false, an ordering comparison of a number with
  a string raises \<open>TypeError\<close> (and so yields false), and \<open>in_range\<close> on numbers is
  \<open>lo \<le> value \<le> hi\<close> with both ends included.
\<close>

theorem evaluate_conjunctive_fail_closed:
  "(evaluate r a \<longleftrightarrow> list_all (satisfied a) (antecedents r))
   \<and> (list_all (satisfied a) pre \<and> \<not> satisfied a c \<longrightarrow>
        evaluate_loop a (pre @ c # post) =
          (case check_condition a c of Inl e \<Rightarrow> Inl e | Inr b \<Rightarrow> Inr False))
   \<and> (c \<in> set (antecedents r) \<and> check_condition a c = Inl err \<longrightarrow> \<not> evaluate r a)
   \<and> (getattr a attr = PNone \<longrightarrow> check_condition a (Cond attr operator val) = Inr False)
   \<and> (operator \<notin> set [''>'', ''>='', ''<'', ''<='', ''=='', ''!='', ''in_range''] \<longrightarrow>
        check_condition a (Cond attr operator val) = Inr False)
   \<and> (py_num (getattr a attr) = Some x \<and> operator \<in> set [''>'', ''>='', ''<'', ''<='']
        \<longrightarrow> check_condition a (Cond attr operator (PStr t)) = Inl TypeError)
   \<and> (py_num (getattr a attr) = Some x \<and> py_num lo = Some l \<and> py_num hi = Some h \<longrightarrow>
        check_condition a (Cond attr ''in_range'' (PTuple [lo, hi]))
          = Inr (l \<le> x \<and> x \<le> h))"
proof -
  have raise: "c \<in> set (antecedents r) \<and> check_condition a c = Inl err \<longrightarrow> \<not> evaluate r a"
  proof (intro impI, elim conjE)
    assume m: "c \<in> set (antecedents r)" and e: "check_condition a c = Inl err"
    from e have "\<not> satisfied a c" by (simp add: satisfied_def)
    with m have "\<not> list_all (satisfied a) (antecedents r)" by (auto simp: list_all_iff)
    then show "\<not> evaluate r a" by (simp add: evaluate_iff)
  qed
  show ?thesis
    using evaluate_iff [of r a] evaluate_loop_stops [of a pre c post] raise
      absent_attribute_False [of a attr operator val]
      unknown_operator_False [of operator a attr val]
      number_against_string_raises [of a attr x operator t]
      in_range_inclusive [of a attr x lo l hi h]
    by blast
qed

theorem evaluate_conjunctive_fail_closed_witness:
  "\<not> evaluate (initialize_rules ! 1) applicant_A1
   \<and> evaluate (initialize_rules ! 0) applicant_A1
   \<and> evaluate_loop applicant_A1
        ([] @ Cond ''income'' ''in_range'' (PTuple [PInt 40000, PInt 60000])
           # [Cond ''credit_score'' ''>'' (PStr ''high'')]) = Inr False
   \<and> \<not> evaluate (new_rule ''T'' [Cond ''income'' ''>'' (PStr ''high'')] ''Approve Loan''
                    ''High'' 1 ''type mismatch'') applicant_A1
   \<and> check_condition applicant_A1 (Cond ''salary'' ''>'' (PInt 0)) = Inr False
   \<and> check_condition applicant_A1 (Cond ''income'' ''~='' (PInt 0)) = Inr False
   \<and> check_condition applicant_A1 (Cond ''income'' ''>'' (PStr ''high'')) = Inl TypeError
   \<and> check_condition applicant_A1 (Cond ''income'' ''in_range'' (PTuple [PInt 70000, PInt 70000]))
       = Inr True"
proof -
  have g: "getattr applicant_A1 ''income'' = PInt 70000"
    "getattr applicant_A1 ''credit_score'' = PInt 760"
    "getattr applicant_A1 ''existing_debt'' = PStr ''Low''"
    "getattr applicant_A1 ''salary'' = PNone"
    by (simp_all add: getattr_def applicant_A1_def new_applicant_def)
  have u: "\<not> satisfied applicant_A1
             (Cond ''income'' ''in_range'' (PTuple [PInt 40000, PInt 60000]))"
    by (simp add: satisfied_def evaluate_condition_def g)
  have m: "check_condition applicant_A1 (Cond ''income'' ''>'' (PStr ''high'')) = Inl TypeError"
    by (simp add: evaluate_condition_def g)
  have r1: "list_all (satisfied applicant_A1) (antecedents (initialize_rules ! 0))"
    by (simp add: initialize_rules_def new_rule_def satisfied_def evaluate_condition_def g)
  have r2: "\<not> list_all (satisfied applicant_A1) (antecedents (initialize_rules ! 1))"
    using u by (simp add: initialize_rules_def new_rule_def)
  show ?thesis
    using
      evaluate_conjunctive_fail_closed [where r = "initialize_rules ! 1" and a = applicant_A1
        and pre = "[]" and c = "Cond ''income'' ''in_range'' (PTuple [PInt 40000, PInt 60000])"
        and post = "[Cond ''credit_score'' ''>'' (PStr ''high'')]"
        and attr = "''salary''" and operator = "''>''" and val = "PInt 0"
        and x = 70000 and lo = "PInt 70000" and hi = "PInt 70000" and l = 70000 and h = 70000
        and t = "''high''" and err = TypeError]
      evaluate_conjunctive_fail_closed [where r = "initialize_rules ! 0" and a = applicant_A1
        and pre = "[]" and c = "Cond ''income'' ''>'' (PStr ''high'')" and post = "[]"
        and attr = "''income''" and operator = "''~=''" and val = "PInt 0"
        and x = 70000 and lo = "PInt 70000" and hi = "PInt 70000" and l = 70000 and h = 70000
        and t = "''high''" and err = TypeError]
      evaluate_conjunctive_fail_closed [where a = applicant_A1
        and r = "new_rule ''T'' [Cond ''income'' ''>'' (PStr ''high'')] ''Approve Loan''
                    ''High'' 1 ''type mismatch''"
        and pre = "[]" and c = "Cond ''income'' ''>'' (PStr ''high'')" and post = "[]"
        and attr = "''income''" and operator = "''>''" and val = "PInt 0"
        and x = 70000 and lo = "PInt 70000" and hi = "PInt 70000" and l = 70000 and h = 70000
        and t = "''high''" and err = TypeError]
      u m r1 r2 g
    by (simp add: new_rule_def evaluate_condition_def satisfied_def)
qed

section \<open>Backward chaining: the decision\<close>

lemma check_rules_fst:
  "fst (check_rules rs a acc lg) = acc @ filter (\<lambda>r. evaluate r a) rs"
  by (induction rs arbitrary: acc lg) (simp_all add: Let_def)

lemma provable_filter:
  "provable rb a goal \<longleftrightarrow>
     filter (\<lambda>r. evaluate r a) (get_rules_by_consequent rb goal) \<noteq> []"
  by (auto simp: provable_def get_rules_by_consequent_def list_ex_iff filter_empty_conv)

lemma prove_goal_fresh:
  assumes "goal \<notin> proven_goals st" and "goal \<notin> failed_goals st" and "depth \<le> 10"
  shows "fst (prove_goal rb s goal a depth st) = provable rb a goal"
    and "proven_goals (snd (prove_goal rb s goal a depth st)) =
           (if provable rb a goal then insert goal (proven_goals st) else proven_goals st)"
    and "failed_goals (snd (prove_goal rb s goal a depth st)) =
           (if provable rb a goal then failed_goals st else insert goal (failed_goals st))"
proof -
  obtain sat lg2 where
    cr: "check_rules (get_rules_by_consequent rb goal) a [] (log_entry (bc_logger st) ''SYSTEM'' None)
           = (sat, lg2)"
    by (cases "check_rules (get_rules_by_consequent rb goal) a []
                 (log_entry (bc_logger st) ''SYSTEM'' None)")
  from check_rules_fst [of "get_rules_by_consequent rb goal" a "[]"
      "log_entry (bc_logger st) ''SYSTEM'' None"] cr
  have sat: "sat = filter (\<lambda>r. evaluate r a) (get_rules_by_consequent rb goal)" by simp
  have e: "get_rules_by_consequent rb goal = [] \<Longrightarrow> \<not> provable rb a goal"
    by (simp add: provable_filter)
  from assms have d: "\<not> depth > 10" by simp
  show "fst (prove_goal rb s goal a depth st) = provable rb a goal"
    using assms(1,2) d cr sat e
    by (auto simp: prove_goal_def Let_def provable_filter)
  show "proven_goals (snd (prove_goal rb s goal a depth st)) =
           (if provable rb a goal then insert goal (proven_goals st) else proven_goals st)"
    using assms(1,2) d cr sat e
    by (auto simp: prove_goal_def Let_def provable_filter)
  show "failed_goals (snd (prove_goal rb s goal a depth st)) =
           (if provable rb a goal then failed_goals st else insert goal (failed_goals st))"
    using assms(1,2) d cr sat e
    by (auto simp: prove_goal_def Let_def provable_filter)
qed

lemma try_goals_find:
  "distinct goals \<Longrightarrow> set goals \<inter> (proven_goals st \<union> failed_goals st) = {} \<Longrightarrow>
     fst (try_goals rb s a goals st) = find (provable rb a) goals"
proof (induction goals arbitrary: st)
  case Nil
  then show ?case by simp
next
  case (Cons g gs)
  define st0 where "st0 = st\<lparr>bc_logger := log_entry (bc_logger st) ''SYSTEM'' None\<rparr>"
  obtain proved st' where pg: "prove_goal rb s g a 0 st0 = (proved, st')"
    by (cases "prove_goal rb s g a 0 st0")
  from Cons.prems have fresh: "g \<notin> proven_goals st0" "g \<notin> failed_goals st0"
    by (auto simp: st0_def)
  from prove_goal_fresh [OF fresh, of 0 rb s a] pg have
    p: "proved = provable rb a g" and
    pr: "proven_goals st' = (if provable rb a g then insert g (proven_goals st0)
                             else proven_goals st0)" and
    fl: "failed_goals st' = (if provable rb a g then failed_goals st0
                             else insert g (failed_goals st0))"
    by simp_all
  show ?case
  proof (cases "provable rb a g")
    case True
    with p pg show ?thesis by (simp add: st0_def)
  next
    case False
    from Cons.prems have d: "distinct gs" and ng: "g \<notin> set gs" by simp_all
    from False pr fl Cons.prems ng have
      "set gs \<inter> (proven_goals st' \<union> failed_goals st') = {}"
      by (auto simp: st0_def)
    from Cons.IH [OF d this] False p pg show ?thesis by (simp add: st0_def)
  qed
qed

lemma backward_decision:
  "fst (fst (backward_infer rb s st a)) =
     (case find (provable rb a) goal_order of Some g \<Rightarrow> g | None \<Rightarrow> ''Manual Review'')"
proof -
  define st0 where
    "st0 = \<lparr>bc_logger = start (bc_logger st), proven_goals = {}, failed_goals = {}\<rparr>"
  have d: "distinct goal_order" by (simp add: goal_order_def)
  have "set goal_order \<inter> (proven_goals st0 \<union> failed_goals st0) = {}"
    by (simp add: st0_def)
  from try_goals_find [OF d this, of rb s a] have
    f: "fst (try_goals rb s a goal_order st0) = find (provable rb a) goal_order" .
  obtain found st1 where t: "try_goals rb s a goal_order st0 = (found, st1)"
    by (cases "try_goals rb s a goal_order st0")
  with f have t': "try_goals rb s a goal_order st0 = (find (provable rb a) goal_order, st1)"
    by simp
  show ?thesis
    unfolding backward_infer_def Let_def st0_def [symmetric] t'
    by (cases "find (provable rb a) goal_order") simp_all
qed

text \<open>
  C5. The goals are tried in the order Reject Loan, Approve Loan, Approve with
  Conditions, Manual Review. The decision of \<open>BackwardChaining.infer\<close> is the first goal
  of that order which some rule of the rule base concludes and which evaluates true on the
  applicant, and Manual Review when there is no such goal. The test of a goal looks only
  at the rules that conclude it: \<open>prove_goal\<close> makes no call to itself.
\<close>

theorem backward_infer_first_provable_goal:
  "goal_order = [''Reject Loan'', ''Approve Loan'', ''Approve with Conditions'', ''Manual Review'']
   \<and> fst (fst (backward_infer rb s st a)) =
       (case find (\<lambda>goal. list_ex (\<lambda>r. consequent r = goal \<and> evaluate r a) rb) goal_order of
          Some g \<Rightarrow> g
        | None \<Rightarrow> ''Manual Review'')"
proof -
  have "provable rb a = (\<lambda>goal. list_ex (\<lambda>r. consequent r = goal \<and> evaluate r a) rb)"
    by (rule ext) (simp add: provable_def)
  with backward_decision [of rb s st a] show ?thesis by (simp add: goal_order_def)
qed

lemma R1_fires_on_A1: "evaluate (initialize_rules ! 0) applicant_A1"
  by (simp add: initialize_rules_def new_rule_def evaluate_def evaluate_condition_def
      getattr_def applicant_A1_def new_applicant_def)

lemma no_reject_rule_on_A1:
  "\<not> list_ex (\<lambda>r. consequent r = ''Reject Loan'' \<and> evaluate r applicant_A1) initialize_rules"
  by (simp add: initialize_rules_def new_rule_def evaluate_def evaluate_condition_def
      getattr_def applicant_A1_def new_applicant_def)

theorem backward_infer_first_provable_goal_witness:
  "fst (fst (backward_infer initialize_rules ''priority_specificity''
         (backward_chain (new_rule_engine ''both'')) applicant_A1)) = ''Approve Loan''"
proof -
  have y: "list_ex (\<lambda>r. consequent r = ''Approve Loan'' \<and> evaluate r applicant_A1)
             initialize_rules"
    using R1_fires_on_A1 by (simp add: initialize_rules_def new_rule_def)
  have "find (\<lambda>goal. list_ex (\<lambda>r. consequent r = goal \<and> evaluate r applicant_A1)
                initialize_rules) goal_order = Some ''Approve Loan''"
    unfolding goal_order_def using y no_reject_rule_on_A1 by simp
  with backward_infer_first_provable_goal [of initialize_rules "''priority_specificity''"
      "backward_chain (new_rule_engine ''both'')" applicant_A1]
  show ?thesis by simp
qed

section \<open>Decision-level arbitration\<close>

lemma score_gt_tuple_int: "score_gt (TupleScore t) (IntScore i) = Inl TypeError"
  by simp

lemma decision_loop_keeps_initial:
  "fst (decision_loop s groups None (IntScore i) lg) = None"
proof (induction groups arbitrary: lg)
  case Nil
  then show ?case by simp
next
  case (Cons g groups)
  obtain d rs where g: "g = (d, rs)" by (cases g)
  show ?case
  proof (cases "rs = []")
    case True
    with g Cons.IH show ?thesis by simp
  next
    case False
    obtain w lg' where r: "resolve s rs lg = (w, lg')" by (cases "resolve s rs lg")
    show ?thesis
      using g False r Cons.IH [of lg'] by (cases w) (simp_all add: Let_def)
  qed
qed

text \<open>
  Whatever the groups are, the comparison of a tuple score with the initial integer
  score raises in every round, no group is ever recorded as best, and the result is the
  fallback.
\<close>

lemma resolve_by_decision_always_manual_review:
  "fst (resolve_by_decision s groups lg) = ''Manual Review''"
proof -
  obtain bd bs lg' where
    l: "decision_loop s groups None (IntScore (- 1)) lg = (bd, bs, lg')"
    by (cases "decision_loop s groups None (IntScore (- 1)) lg") auto
  from decision_loop_keeps_initial [of s groups "- 1" lg] l have "bd = None" by simp
  with l show ?thesis by (simp add: resolve_by_decision_def)
qed

text \<open>
  C1 (the code departs from the claim). With one rule for Approve Loan (R1) and one for
  Reject Loan (R6), the claim asks for Reject Loan, the decision of highest precedence;
  \<open>resolve_by_decision\<close> returns Manual Review.
\<close>

theorem resolve_by_decision_approve_reject:
  "fst (resolve_by_decision ''priority_specificity''
         [(''Approve Loan'', [initialize_rules ! 0]), (''Reject Loan'', [initialize_rules ! 5])]
         None) = ''Manual Review''"
  by (simp add: resolve_by_decision_def resolve_def initialize_rules_def new_rule_def
      decision_priority_def priority_levels_get_def)

section \<open>Unemployed applicants\<close>

lemma R4_fires_on_unemployed:
  "employment_status a = PStr ''Unemployed'' \<Longrightarrow> evaluate (initialize_rules ! 3) a"
  by (simp add: initialize_rules_def new_rule_def evaluate_def evaluate_condition_def
      getattr_def)

text \<open>Backward chaining rejects every unemployed applicant under the built-in rules.\<close>

lemma backward_rejects_unemployed:
  assumes "employment_status a = PStr ''Unemployed''"
  shows "fst (fst (backward_infer initialize_rules s st a)) = ''Reject Loan''"
proof -
  have "initialize_rules ! 3 \<in> set initialize_rules"
    by (simp add: initialize_rules_def)
  moreover have "consequent (initialize_rules ! 3) = ''Reject Loan''"
    by (simp add: initialize_rules_def new_rule_def)
  ultimately have "provable initialize_rules a ''Reject Loan''"
    using R4_fires_on_unemployed [OF assms] unfolding provable_def list_ex_iff by blast
  then have "find (provable initialize_rules a) goal_order = Some ''Reject Loan''"
    by (simp add: goal_order_def)
  with backward_decision [of initialize_rules s st a] show ?thesis by simp
qed

lemma forward_manual_review_on_A5:
  "fst (fst (forward_infer initialize_rules ''priority_specificity'' lg0 applicant_A5))
     = ''Manual Review''"
proof -
  have ev: "map (\<lambda>r. evaluate r applicant_A5) initialize_rules
              = [False, False, False, True, False, False, False, True]"
    by (simp add: initialize_rules_def new_rule_def evaluate_def evaluate_condition_def
        getattr_def applicant_A5_def new_applicant_def)
  obtain n fired decisions lg where
    run: "forward_run initialize_rules applicant_A5 lg0 = (n, fired, decisions, lg)"
    by (cases "forward_run initialize_rules applicant_A5 lg0") auto
  have keys: "map fst decisions = [''Reject Loan'', ''Manual Review'']"
    using run ev
    by (auto simp: forward_run_def initialize_rules_def new_rule_def)
  have "length (map fst decisions) = 2" unfolding keys by simp
  then have "length decisions > 1" by simp
  with run
    resolve_by_decision_always_manual_review [of "''priority_specificity''" decisions "Some lg"]
  show ?thesis
    by (auto simp: forward_infer_def Let_def split: prod.splits)
qed

text \<open>
  C2 (the code departs from the claim). The applicant of test A5 is unemployed (income
  55000, credit score 680, employment duration 0, age 28, 2 dependents, low debt). Rule R4
  (Reject Loan) and rule R8 (Manual Review) both fire, forward chaining hands the two
  decisions to \<open>resolve_by_decision\<close> and returns Manual Review, not Reject Loan;
  backward chaining returns Reject Loan.
\<close>

theorem forward_infer_unemployed_A5:
  "fst (fst (forward_infer initialize_rules ''priority_specificity''
         (forward_logger (new_rule_engine ''both'')) applicant_A5)) = ''Manual Review''
   \<and> employment_status applicant_A5 = PStr ''Unemployed''
   \<and> fst (fst (backward_infer initialize_rules ''priority_specificity''
         (backward_chain (new_rule_engine ''both'')) applicant_A5)) = ''Reject Loan''"
proof -
  have e: "employment_status applicant_A5 = PStr ''Unemployed''"
    by (simp add: applicant_A5_def new_applicant_def)
  with forward_manual_review_on_A5 [of "forward_logger (new_rule_engine ''both'')"]
    backward_rejects_unemployed [OF e]
  show ?thesis by simp
qed

section \<open>Termination bounds\<close>

lemma forward_loop_passes:
  "fst (forward_loop rb a iteration max_iterations fired decisions lg)
     \<le> max iteration max_iterations"
proof (induction rb a iteration max_iterations fired decisions lg rule: forward_loop.induct)
  case (1 rb a iteration max_iterations fired decisions lg)
  show ?case
  proof (cases "iteration < max_iterations")
    case False
    then show ?thesis by (simp add: forward_loop.simps [of rb a iteration])
  next
    case True
    obtain this_iteration decisions' lg' where
      p: "forward_pass rb a fired [] decisions lg = (this_iteration, decisions', lg')"
      by (cases "forward_pass rb a fired [] decisions lg") auto
    show ?thesis
    proof (cases "this_iteration = []")
      case e: True
      with True p show ?thesis by (simp add: forward_loop.simps [of rb a iteration])
    next
      case ne: False
      from "1.IH" [OF True p [symmetric] refl ne] True p ne show ?thesis
        by (simp add: forward_loop.simps [of rb a iteration])
    qed
  qed
qed

lemma prove_goal_beyond_guard:
  "depth > 10 \<Longrightarrow> goal \<notin> proven_goals st \<Longrightarrow>
     prove_goal rb s goal a depth st
       = (False, st\<lparr>bc_logger := log_entry (bc_logger st) ''SYSTEM'' None\<rparr>)"
  by (simp add: prove_goal_def)

text \<open>
  C8. The loop of forward chaining is defined by recursion on
  \<open>max_iterations - iteration\<close>, so it returns for every rule base and applicant, and the
  number of passes it has made when it returns is at most twice the number of rules.
  \<open>prove_goal\<close> is defined without recursion, so every call returns, whatever the
  consequents of the rule base refer to; a call beyond depth 10 for a goal not yet proven
  returns false at the guard, with the memo sets unchanged and no rule evaluated.
\<close>

theorem chaining_halts_within_bounds:
  "fst (forward_run rb a lg) \<le> 2 * length rb
   \<and> (depth > 10 \<and> goal \<notin> proven_goals st \<longrightarrow>
        prove_goal rb s goal a depth st
          = (False, st\<lparr>bc_logger := log_entry (bc_logger st) ''SYSTEM'' None\<rparr>))"
proof -
  have "fst (forward_run rb a lg) \<le> max 0 (length rb * 2)"
    unfolding forward_run_def by (rule forward_loop_passes)
  then have "fst (forward_run rb a lg) \<le> 2 * length rb" by simp
  with prove_goal_beyond_guard [of depth goal st rb s a] show ?thesis by blast
qed

theorem chaining_halts_within_bounds_witness:
  "fst (forward_run initialize_rules applicant_A1 (new_trace_logger 50)) \<le> 16
   \<and> fst (prove_goal initialize_rules ''priority_specificity'' ''Reject Loan'' applicant_A1 11
        \<lparr>bc_logger = new_trace_logger 50, proven_goals = {}, failed_goals = {}\<rparr>) = False"
  using chaining_halts_within_bounds [where rb = initialize_rules and a = applicant_A1
      and lg = "new_trace_logger 50" and depth = 11 and goal = "''Reject Loan''"
      and s = "''priority_specificity''"
      and st = "\<lparr>bc_logger = new_trace_logger 50, proven_goals = {}, failed_goals = {}\<rparr>"]
  by (simp add: initialize_rules_def)

section \<open>Forward chaining: where its decision comes from\<close>

lemma decisions_append_keys:
  "fst ` set (decisions_append ds k r) = insert k (fst ` set ds)"
  by (induction ds k r rule: decisions_append.induct) auto

lemma forward_pass_keys:
  "fst ` set (fst (snd (forward_pass rs a fired this_iteration ds lg)))
     \<subseteq> fst ` set ds \<union> consequent ` set rs"
proof (induction rs arbitrary: this_iteration ds lg)
  case Nil
  then show ?case by simp
next
  case (Cons r rs)
  show ?case
  proof (cases "rule_id r \<in> set (map rule_id fired)")
    case True
    with Cons.IH [of this_iteration ds lg] show ?thesis by auto
  next
    case False
    show ?thesis
    proof (cases "evaluate r a")
      case True
      from Cons.IH [of "this_iteration @ [r]" "decisions_append ds (consequent r) r"
          "log_rule_fired (log_rule_evaluation lg (rule_id r)) (rule_id r)"]
      have "fst ` set (fst (snd (forward_pass rs a fired (this_iteration @ [r])
                (decisions_append ds (consequent r) r)
                (log_rule_fired (log_rule_evaluation lg (rule_id r)) (rule_id r)))))
            \<subseteq> insert (consequent r) (fst ` set ds) \<union> consequent ` set rs"
        by (simp add: decisions_append_keys)
      with False True show ?thesis by auto
    next
      case nf: False
      with False Cons.IH [of this_iteration ds "log_rule_evaluation lg (rule_id r)"]
      show ?thesis by auto
    qed
  qed
qed

lemma forward_loop_keys:
  "fst ` set (fst (snd (snd (forward_loop rb a iteration max_iterations fired ds lg))))
     \<subseteq> fst ` set ds \<union> consequent ` set rb"
proof (induction rb a iteration max_iterations fired ds lg rule: forward_loop.induct)
  case (1 rb a iteration max_iterations fired ds lg)
  show ?case
  proof (cases "iteration < max_iterations")
    case False
    then show ?thesis by (simp add: forward_loop.simps [of rb a iteration])
  next
    case True
    obtain this_iteration ds' lg' where
      p: "forward_pass rb a fired [] ds lg = (this_iteration, ds', lg')"
      by (cases "forward_pass rb a fired [] ds lg") auto
    from forward_pass_keys [of rb a fired "[]" ds lg] p have
      k: "fst ` set ds' \<subseteq> fst ` set ds \<union> consequent ` set rb" by simp
    show ?thesis
    proof (cases "this_iteration = []")
      case e: True
      with True p k show ?thesis by (simp add: forward_loop.simps [of rb a iteration])
    next
      case ne: False
      from "1.IH" [OF True p [symmetric] refl ne] k have
        "fst ` set (fst (snd (snd (forward_loop rb a (iteration + 1) max_iterations
             (fired @ this_iteration) ds' lg'))))
         \<subseteq> fst ` set ds \<union> consequent ` set rb"
        by blast
      with True p ne show ?thesis by (simp add: forward_loop.simps [of rb a iteration])
    qed
  qed
qed

text \<open>
  The decision of forward chaining is Manual Review, or else the consequent of a rule of
  the rule base. With a rule base whose consequents are among the four decision labels,
  as the built-in one, it is therefore one of the four labels.
\<close>

lemma forward_decision_source:
  "fst (fst (forward_infer rb s lg a)) = ''Manual Review''
   \<or> fst (fst (forward_infer rb s lg a)) \<in> consequent ` set rb"
proof -
  obtain n fired ds lg1 where run: "forward_run rb a lg = (n, fired, ds, lg1)"
    by (cases "forward_run rb a lg") auto
  from forward_loop_keys [of rb a 0 "length rb * 2" "[]" "[]"
      "log_entry (start lg) ''SYSTEM'' None"] run
  have k: "fst ` set ds \<subseteq> consequent ` set rb" by (simp add: forward_run_def)
  show ?thesis
  proof (cases "length ds > 1")
    case True
    with run resolve_by_decision_always_manual_review [of s ds "Some lg1"] show ?thesis
      by (auto simp: forward_infer_def Let_def split: prod.splits)
  next
    case False
    show ?thesis
    proof (cases ds)
      case Nil
      with run show ?thesis by (simp add: forward_infer_def Let_def)
    next
      case (Cons g rest)
      obtain d rs where g: "g = (d, rs)" by (cases g)
      from k Cons g have "d \<in> consequent ` set rb" by auto
      with run False Cons g show ?thesis by (simp add: forward_infer_def Let_def)
    qed
  qed
qed

lemma forward_decision_in_table:
  assumes "\<forall>r\<in>set rb. consequent r \<in> set goal_order"
  shows "fst (fst (forward_infer rb s lg a)) \<in> set goal_order"
  using forward_decision_source [of rb s lg a] assms
  by (auto simp: goal_order_def)

lemma built_in_consequents_in_table: "\<forall>r\<in>set initialize_rules. consequent r \<in> set goal_order"
  by (simp add: initialize_rules_def new_rule_def goal_order_def)

section \<open>Rule engine: merging the two opinions\<close>

lemma set_decision_fields:
  "decision (set_decision a d tr) = Some d"
  "decision_writes (set_decision a d tr) = decision_writes a @ [d]"
  "employment_status (set_decision a d tr) = employment_status a"
  by (cases tr; simp add: set_decision_def Let_def)+

lemma forward_infer_applicant:
  "forward_infer rb s lg a = ((fd, ft), lg', a1) \<Longrightarrow>
     a1 = set_decision a fd (Some (summary_trace ft))"
  by (auto simp: forward_infer_def Let_def split: prod.splits)

lemma backward_infer_applicant:
  "backward_infer rb s st a = ((bd, bt), st', a2) \<Longrightarrow>
     a2 = set_decision a bd (Some (summary_trace bt))"
  by (auto simp: backward_infer_def Let_def split: prod.splits)

lemma find_in_list: "find P xs = Some x \<Longrightarrow> x \<in> set xs"
  by (induction xs) (auto split: if_splits)

lemma backward_decision_in_table: "fst (fst (backward_infer rb s st a)) \<in> set goal_order"
proof (cases "find (provable rb a) goal_order")
  case None
  with backward_decision [of rb s st a] show ?thesis by (simp add: goal_order_def)
next
  case (Some g)
  with backward_decision [of rb s st a] find_in_list [OF Some] show ?thesis by simp
qed

lemma decision_priority_table:
  "d \<in> set goal_order \<Longrightarrow> \<exists>p. decision_priority d = Some p"
  by (auto simp: goal_order_def decision_priority_def)

lemma merge_agree:
  "merge_decisions (Some (d, ft)) (Some (d, bt))
     = Inr (d, Some ''Both forward and backward chaining agree'')"
  by (simp add: merge_decisions_def)

lemma merge_disagree:
  assumes "fd \<noteq> bd" and "fd \<in> set goal_order" and "bd \<in> set goal_order"
  shows "merge_decisions (Some (fd, ft)) (Some (bd, bt))
     = Inr (higher_precedence fd bd,
            Some (''Forward chaining: '' @ fd @ '', Backward chaining: '' @ bd))"
  using assms
  by (auto simp: merge_decisions_def goal_order_def decision_priority_def
      higher_precedence_def)

lemma evaluate_applicant_both:
  assumes "chaining_type e = ''both''"
    and "forward_infer (rule_base e) (strategy e) (forward_logger e) a = ((fd, ft), lg, a1)"
    and "backward_infer (rule_base e) (strategy e) (backward_chain e) a1 = ((bd, bt), st, a2)"
  shows "evaluate_applicant e a =
     (case merge_decisions (Some (fd, ft)) (Some (bd, bt)) of
        Inl err \<Rightarrow> Inl err
      | Inr (final, why) \<Rightarrow>
          Inr (\<lparr>forward_chaining = Some (fd, ft), backward_chaining = Some (bd, bt),
                final_decision = final, reasoning = why\<rparr>,
               e\<lparr>forward_logger := lg, backward_chain := st\<rparr>,
               set_decision a2 final None))"
  using assms by (simp add: evaluate_applicant_def)

text \<open>
  C3. Let both strategies run, with forward decision \<open>fd\<close> and backward decision \<open>bd\<close>
  (backward chaining works on the applicant as forward chaining left it). When the two
  agree, the call returns that decision with the reasoning that both methods agree. When
  they disagree and the forward decision is one of the four decision labels (the backward
  decision always is), the call returns the one of the two that is higher under Reject
  Loan > Manual Review > Approve with Conditions > Approve Loan, and the reasoning names
  both opinions.
\<close>

theorem evaluate_applicant_merge_policy:
  assumes "chaining_type e = ''both''"
    and "forward_infer (rule_base e) (strategy e) (forward_logger e) a = ((fd, ft), lg, a1)"
    and "backward_infer (rule_base e) (strategy e) (backward_chain e) a1 = ((bd, bt), st, a2)"
  shows "(fd = bd \<longrightarrow>
            (\<exists>res e' a'. evaluate_applicant e a = Inr (res, e', a')
               \<and> final_decision res = fd
               \<and> reasoning res = Some ''Both forward and backward chaining agree''))
       \<and> (fd \<noteq> bd \<and> fd \<in> set goal_order \<longrightarrow>
            (\<exists>res e' a'. evaluate_applicant e a = Inr (res, e', a')
               \<and> final_decision res = higher_precedence fd bd
               \<and> (final_decision res = fd \<or> final_decision res = bd)
               \<and> reasoning res
                    = Some (''Forward chaining: '' @ fd @ '', Backward chaining: '' @ bd)))"
proof (intro conjI impI)
  assume "fd = bd"
  with evaluate_applicant_both [OF assms] merge_agree [of bd ft bt]
  show "\<exists>res e' a'. evaluate_applicant e a = Inr (res, e', a')
               \<and> final_decision res = fd
               \<and> reasoning res = Some ''Both forward and backward chaining agree''"
    by simp
next
  assume h: "fd \<noteq> bd \<and> fd \<in> set goal_order"
  from backward_decision_in_table [of "rule_base e" "strategy e" "backward_chain e" a1] assms(3)
  have b: "bd \<in> set goal_order" by simp
  from h b have hp: "higher_precedence fd bd = fd \<or> higher_precedence fd bd = bd"
    by (auto simp: goal_order_def higher_precedence_def)
  from h b evaluate_applicant_both [OF assms] merge_disagree [of fd bd ft bt] hp
  show "\<exists>res e' a'. evaluate_applicant e a = Inr (res, e', a')
               \<and> final_decision res = higher_precedence fd bd
               \<and> (final_decision res = fd \<or> final_decision res = bd)
               \<and> reasoning res
                    = Some (''Forward chaining: '' @ fd @ '', Backward chaining: '' @ bd)"
    by simp
qed

lemma A5_after_forward_unemployed:
  "employment_status (snd (snd (forward_infer rb s lg applicant_A5))) = PStr ''Unemployed''"
proof -
  obtain fd ft lg' a1 where f: "forward_infer rb s lg applicant_A5 = ((fd, ft), lg', a1)"
    by (cases "forward_infer rb s lg applicant_A5") auto
  from forward_infer_applicant [OF f] f show ?thesis
    by (simp add: set_decision_fields applicant_A5_def new_applicant_def)
qed

theorem evaluate_applicant_merge_policy_witness:
  "\<exists>res e' a'. evaluate_applicant (new_rule_engine ''both'') applicant_A5 = Inr (res, e', a')
     \<and> final_decision res = ''Reject Loan''
     \<and> reasoning res = Some ''Forward chaining: Manual Review, Backward chaining: Reject Loan''"
proof -
  define e where "e = new_rule_engine ''both''"
  have ct: "chaining_type e = ''both''" and rb: "rule_base e = initialize_rules"
    and sg: "strategy e = ''priority_specificity''"
    by (simp_all add: e_def new_rule_engine_def)
  obtain fd ft lg a1 where
    f: "forward_infer (rule_base e) (strategy e) (forward_logger e) applicant_A5
          = ((fd, ft), lg, a1)"
    by (cases "forward_infer (rule_base e) (strategy e) (forward_logger e) applicant_A5")
      auto
  obtain bd bt st a2 where
    b: "backward_infer (rule_base e) (strategy e) (backward_chain e) a1 = ((bd, bt), st, a2)"
    by (cases "backward_infer (rule_base e) (strategy e) (backward_chain e) a1") auto
  from f forward_manual_review_on_A5 [of "forward_logger e"] rb sg
  have fd: "fd = ''Manual Review''" by simp
  from f A5_after_forward_unemployed [of "rule_base e" "strategy e" "forward_logger e"]
  have "employment_status a1 = PStr ''Unemployed''" by simp
  from backward_rejects_unemployed [OF this, of "strategy e" "backward_chain e"] b rb
  have bd: "bd = ''Reject Loan''" by simp
  have hp: "higher_precedence ''Manual Review'' ''Reject Loan'' = ''Reject Loan''"
    by (simp add: higher_precedence_def)
  from evaluate_applicant_merge_policy [OF ct f b] fd bd hp
  show ?thesis unfolding e_def by (simp add: goal_order_def) blast
qed

section \<open>Rule engine: writes to the decision field\<close>

lemma forward_step_writes:
  assumes "(if chaining_type e = ''forward'' \<or> chaining_type e = ''both''
            then (case forward_infer (rule_base e) (strategy e) (forward_logger e) a of
                    (r, lg, a') \<Rightarrow> (Some r, e\<lparr>forward_logger := lg\<rparr>, a'))
            else (None, e, a)) = (fc, e1, a1)"
  shows "decision_writes a1
           = decision_writes a @ (case fc of None \<Rightarrow> [] | Some (fd, ft) \<Rightarrow> [fd])"
    and "fc \<noteq> None \<longleftrightarrow> chaining_type e = ''forward'' \<or> chaining_type e = ''both''"
    and "chaining_type e1 = chaining_type e"
proof -
  obtain fd ft lg a' where
    f: "forward_infer (rule_base e) (strategy e) (forward_logger e) a = ((fd, ft), lg, a')"
    by (cases "forward_infer (rule_base e) (strategy e) (forward_logger e) a") auto
  from forward_infer_applicant [OF f] have
    w: "decision_writes a' = decision_writes a @ [fd]" by (simp add: set_decision_fields)
  show "decision_writes a1
           = decision_writes a @ (case fc of None \<Rightarrow> [] | Some (fd, ft) \<Rightarrow> [fd])"
    using assms f w by (auto split: if_splits)
  show "fc \<noteq> None \<longleftrightarrow> chaining_type e = ''forward'' \<or> chaining_type e = ''both''"
    using assms f by (auto split: if_splits)
  show "chaining_type e1 = chaining_type e"
    using assms f by (auto split: if_splits)
qed

lemma backward_step_writes:
  assumes "(if ct = ''backward'' \<or> ct = ''both''
            then (case backward_infer (rule_base e1) (strategy e1) (backward_chain e1) a1 of
                    (r, st, a') \<Rightarrow> (Some r, e1\<lparr>backward_chain := st\<rparr>, a'))
            else (None, e1, a1)) = (bc, e2, a2)"
  shows "decision_writes a2
           = decision_writes a1 @ (case bc of None \<Rightarrow> [] | Some (bd, bt) \<Rightarrow> [bd])"
    and "bc \<noteq> None \<longleftrightarrow> ct = ''backward'' \<or> ct = ''both''"
proof -
  obtain bd bt st a' where
    b: "backward_infer (rule_base e1) (strategy e1) (backward_chain e1) a1 = ((bd, bt), st, a')"
    by (cases "backward_infer (rule_base e1) (strategy e1) (backward_chain e1) a1") auto
  from backward_infer_applicant [OF b] have
    w: "decision_writes a' = decision_writes a1 @ [bd]" by (simp add: set_decision_fields)
  show "decision_writes a2
           = decision_writes a1 @ (case bc of None \<Rightarrow> [] | Some (bd, bt) \<Rightarrow> [bd])"
    using assms b w by (auto split: if_splits)
  show "bc \<noteq> None \<longleftrightarrow> ct = ''backward'' \<or> ct = ''both''"
    using assms b by (auto split: if_splits)
qed

lemma evaluate_applicant_writes:
  assumes "evaluate_applicant e a = Inr (res, e', a')"
  shows "decision a' = Some (final_decision res)"
    and "decision_writes a' = decision_writes a
           @ (case forward_chaining res of None \<Rightarrow> [] | Some (fd, ft) \<Rightarrow> [fd])
           @ (case backward_chaining res of None \<Rightarrow> [] | Some (bd, bt) \<Rightarrow> [bd])
           @ [final_decision res]"
    and "forward_chaining res \<noteq> None
           \<longleftrightarrow> chaining_type e = ''forward'' \<or> chaining_type e = ''both''"
    and "backward_chaining res \<noteq> None
           \<longleftrightarrow> chaining_type e = ''backward'' \<or> chaining_type e = ''both''"
proof -
  obtain fc e1 a1 where
    s1: "(if chaining_type e = ''forward'' \<or> chaining_type e = ''both''
            then (case forward_infer (rule_base e) (strategy e) (forward_logger e) a of
                    (r, lg, a') \<Rightarrow> (Some r, e\<lparr>forward_logger := lg\<rparr>, a'))
            else (None, e, a)) = (fc, e1, a1)"
    using prod_cases3 by blast
  obtain bc e2 a2 where
    s2: "(if chaining_type e = ''backward'' \<or> chaining_type e = ''both''
            then (case backward_infer (rule_base e1) (strategy e1) (backward_chain e1) a1 of
                    (r, st, a') \<Rightarrow> (Some r, e1\<lparr>backward_chain := st\<rparr>, a'))
            else (None, e1, a1)) = (bc, e2, a2)"
    using prod_cases3 by blast
  obtain final why where
    m: "(if chaining_type e = ''forward''
         then (case fc of None \<Rightarrow> Inl TypeError | Some (d, t) \<Rightarrow> Inr (d, None))
         else if chaining_type e = ''backward''
         then (case bc of None \<Rightarrow> Inl TypeError | Some (d, t) \<Rightarrow> Inr (d, None))
         else merge_decisions fc bc) = Inr (final, why)"
    and r: "res = \<lparr>forward_chaining = fc, backward_chaining = bc,
                   final_decision = final, reasoning = why\<rparr>"
    and a': "a' = set_decision a2 final None"
    using assms unfolding evaluate_applicant_def s1 prod.case s2
    by (auto split: sum.splits)
  note f = forward_step_writes [OF s1]
  note b = backward_step_writes [OF s2]
  show "decision a' = Some (final_decision res)"
    by (simp add: a' r set_decision_fields)
  show "decision_writes a' = decision_writes a
           @ (case forward_chaining res of None \<Rightarrow> [] | Some (fd, ft) \<Rightarrow> [fd])
           @ (case backward_chaining res of None \<Rightarrow> [] | Some (bd, bt) \<Rightarrow> [bd])
           @ [final_decision res]"
    by (simp add: a' r set_decision_fields f(1) b(1))
  show "forward_chaining res \<noteq> None
           \<longleftrightarrow> chaining_type e = ''forward'' \<or> chaining_type e = ''both''"
    using f(2) by (simp add: r)
  show "backward_chaining res \<noteq> None
           \<longleftrightarrow> chaining_type e = ''backward'' \<or> chaining_type e = ''both''"
    using b(2) by (simp add: r)
qed

lemma evaluate_applicant_A5:
  "\<exists>res e' a' ft bt.
     evaluate_applicant (new_rule_engine ''both'') applicant_A5 = Inr (res, e', a')
     \<and> forward_chaining res = Some (''Manual Review'', ft)
     \<and> backward_chaining res = Some (''Reject Loan'', bt)
     \<and> final_decision res = ''Reject Loan''"
proof -
  define e where "e = new_rule_engine ''both''"
  have ct: "chaining_type e = ''both''" and rb: "rule_base e = initialize_rules"
    and sg: "strategy e = ''priority_specificity''"
    by (simp_all add: e_def new_rule_engine_def)
  obtain fd ft lg a1 where
    f: "forward_infer (rule_base e) (strategy e) (forward_logger e) applicant_A5
          = ((fd, ft), lg, a1)"
    by (cases "forward_infer (rule_base e) (strategy e) (forward_logger e) applicant_A5")
      auto
  obtain bd bt st a2 where
    b: "backward_infer (rule_base e) (strategy e) (backward_chain e) a1 = ((bd, bt), st, a2)"
    by (cases "backward_infer (rule_base e) (strategy e) (backward_chain e) a1") auto
  from f forward_manual_review_on_A5 [of "forward_logger e"] rb sg
  have fd: "fd = ''Manual Review''" by simp
  from f A5_after_forward_unemployed [of "rule_base e" "strategy e" "forward_logger e"]
  have "employment_status a1 = PStr ''Unemployed''" by simp
  from backward_rejects_unemployed [OF this, of "strategy e" "backward_chain e"] b rb
  have bd: "bd = ''Reject Loan''" by simp
  have "merge_decisions (Some (fd, ft)) (Some (bd, bt))
          = Inr (''Reject Loan'',
                 Some (''Forward chaining: '' @ fd @ '', Backward chaining: '' @ bd))"
    unfolding fd bd by (simp add: merge_decisions_def decision_priority_def)
  with evaluate_applicant_both [OF ct f b] fd bd show ?thesis
    unfolding e_def by simp
qed

text \<open>
  C7 as stated fails: in one call with both strategies on the applicant of test A5 the
  decision field is assigned three times, first Manual Review by forward chaining, then
  Reject Loan by backward chaining, then Reject Loan by the orchestrator.
\<close>

theorem decision_set_three_times_A5:
  "writes_during (new_rule_engine ''both'') applicant_A5
     = Some [''Manual Review'', ''Reject Loan'', ''Reject Loan'']
   \<and> map_option length (writes_during (new_rule_engine ''both'') applicant_A5) \<noteq> Some 1"
proof -
  from evaluate_applicant_A5 obtain res e' a' ft bt where
    ev: "evaluate_applicant (new_rule_engine ''both'') applicant_A5 = Inr (res, e', a')"
    and r: "forward_chaining res = Some (''Manual Review'', ft)"
      "backward_chaining res = Some (''Reject Loan'', bt)"
      "final_decision res = ''Reject Loan''"
    by blast
  from evaluate_applicant_writes(2) [OF ev] r have
    "decision_writes a' = decision_writes applicant_A5
        @ [''Manual Review'', ''Reject Loan'', ''Reject Loan'']"
    by simp
  with ev show ?thesis by (simp add: writes_during_def)
qed

text \<open>
  C7 as amended. In every call of \<open>evaluate_applicant\<close> that returns, the decision field is
  assigned once by each chaining engine that runs (forward chaining first, when the
  chaining type is \<open>forward\<close> or \<open>both\<close>, then backward chaining, when it is \<open>backward\<close> or
  \<open>both\<close>) and then once by the orchestrator. The assignment of the orchestrator is the
  last one and stores the final decision, so the field holds the final decision after the
  call whatever the chaining engines wrote.
\<close>

theorem orchestrator_write_is_last:
  assumes "evaluate_applicant e a = Inr (res, e', a')"
  shows "decision a' = Some (final_decision res)
    \<and> decision_writes a' = decision_writes a
         @ (case forward_chaining res of None \<Rightarrow> [] | Some (fd, ft) \<Rightarrow> [fd])
         @ (case backward_chaining res of None \<Rightarrow> [] | Some (bd, bt) \<Rightarrow> [bd])
         @ [final_decision res]
    \<and> (forward_chaining res \<noteq> None
         \<longleftrightarrow> chaining_type e = ''forward'' \<or> chaining_type e = ''both'')
    \<and> (backward_chaining res \<noteq> None
         \<longleftrightarrow> chaining_type e = ''backward'' \<or> chaining_type e = ''both'')"
  using evaluate_applicant_writes [OF assms] by blast

theorem orchestrator_write_is_last_witness:
  "\<exists>res e' a'. evaluate_applicant (new_rule_engine ''both'') applicant_A5 = Inr (res, e', a')
     \<and> decision a' = Some ''Reject Loan''
     \<and> decision_writes a' = [''Manual Review'', ''Reject Loan'', ''Reject Loan'']"
proof -
  from evaluate_applicant_A5 obtain res e' a' ft bt where
    ev: "evaluate_applicant (new_rule_engine ''both'') applicant_A5 = Inr (res, e', a')"
    and r: "forward_chaining res = Some (''Manual Review'', ft)"
      "backward_chaining res = Some (''Reject Loan'', bt)"
      "final_decision res = ''Reject Loan''"
    by blast
  have w0: "decision_writes applicant_A5 = []"
    by (simp add: applicant_A5_def new_applicant_def)
  from orchestrator_write_is_last [OF ev] r w0 have
    "decision a' = Some ''Reject Loan''
     \<and> decision_writes a' = [''Manual Review'', ''Reject Loan'', ''Reject Loan'']"
    by simp
  with ev show ?thesis by blast
qed

end
